theory Spec2Isabelle
  imports Complex_Main
begin

section \<open>Numbers\<close>

text \<open>
  JavaScript numbers are modelled as the reals: every arithmetic operation of the source is
  the exact operation, so rounding error, infinities and NaN are outside the model. The only
  integer-valued operations of the source, \<open>Math.floor\<close>, \<open>Math.round\<close> and the bit mask
  \<open>& 255\<close>, are written out below.
\<close>

section \<open>Noise source (blob.js, class SimplexNoise)\<close>

text \<open>
  The constructor fills \<open>p\<close> with \<open>0..255\<close>, shuffles it with
  \<open>for (i = 255; i > 0; i--) { j = Math.floor(Math.random() * (i + 1)); swap p[i], p[j] }\<close>
  and copies it twice into \<open>perm\<close> (\<open>perm[i] = p[i & 255]\<close> for \<open>i < 512\<close>).
  The stream of random numbers is the parameter \<open>rnd\<close>: \<open>rnd i\<close> is the value
  \<open>Math.random()\<close> returns in the iteration with loop index \<open>i\<close>.
\<close>

definition swap_entries :: "nat list \<Rightarrow> nat \<Rightarrow> nat \<Rightarrow> nat list" where
  "swap_entries p i j = p[i := p ! j, j := p ! i]"

fun shuffle :: "(nat \<Rightarrow> real) \<Rightarrow> nat \<Rightarrow> nat list \<Rightarrow> nat list" where
  "shuffle rnd 0 p = p"
| "shuffle rnd (Suc k) p =
     (let i = Suc k; j = nat \<lfloor>rnd i * real (i + 1)\<rfloor>
      in shuffle rnd k (swap_entries p i j))"

definition SimplexNoise :: "(nat \<Rightarrow> real) \<Rightarrow> nat list" where
  "SimplexNoise rnd =
     (let p = shuffle rnd 255 [0 ..< 256]
      in map (\<lambda>i. p ! (i mod 256)) [0 ..< 512])"

definition fade :: "real \<Rightarrow> real" where
  "fade t = t * t * t * (t * (t * 6 - 15) + 10)"

definition lerp :: "real \<Rightarrow> real \<Rightarrow> real \<Rightarrow> real" where
  "lerp a b t = a + t * (b - a)"

text \<open>\<open>hash & 3\<close> is \<open>hash mod 4\<close>; \<open>h & 1\<close> and \<open>h & 2\<close> test bits 0 and 1 of \<open>h\<close>.\<close>

definition grad :: "nat \<Rightarrow> real \<Rightarrow> real \<Rightarrow> real" where
  "grad hash x y =
     (let h = hash mod 4;
          u = (if h < 2 then x else y);
          v = (if h < 2 then y else x)
      in (if h mod 2 \<noteq> 0 then - u else u) + (if (h div 2) mod 2 \<noteq> 0 then - v else v))"

text \<open>
  \<open>Math.floor(x) & 255\<close>: the mask keeps the low eight bits of the two's-complement
  integer, which is \<open>\<lfloor>x\<rfloor> mod 256\<close> (\<open>mod\<close> on \<open>int\<close> takes the sign of the divisor).
\<close>

definition noise2D :: "nat list \<Rightarrow> real \<Rightarrow> real \<Rightarrow> real" where
  "noise2D perm x y =
     (let xi = nat (\<lfloor>x\<rfloor> mod 256);
          yi = nat (\<lfloor>y\<rfloor> mod 256);
          xf = x - of_int \<lfloor>x\<rfloor>;
          yf = y - of_int \<lfloor>y\<rfloor>;
          u = fade xf;
          v = fade yf;
          aa = perm ! (perm ! xi + yi);
          ab = perm ! (perm ! xi + yi + 1);
          ba = perm ! (perm ! (xi + 1) + yi);
          bb = perm ! (perm ! (xi + 1) + yi + 1)
      in lerp (lerp (grad aa xf yf) (grad ba (xf - 1) yf) u)
              (lerp (grad ab xf (yf - 1)) (grad bb (xf - 1) (yf - 1)) u)
              v)"

section \<open>Motion model (blob.js, class GlucoseBlob)\<close>

text \<open>
  The fields of \<open>GlucoseBlob\<close> that the motion code reads or writes. The DOM handles
  (\<open>container\<close>, \<open>svg\<close>, \<open>path\<close>), the colour and scale fields and \<open>wasDragged\<close>
  (a click guard reset by a timer) play no part in the position. \<open>dragEndPosX\<close> and
  \<open>dragEndPosY\<close> are \<open>undefined\<close> until the first drag ends: \<open>None\<close> here.
\<close>

record blob =
  noise :: "nat list"
  movementSpeed :: real
  morphSpeed :: real
  time :: real
  posX :: real
  posY :: real
  trendAngle :: real
  centerLock :: bool
  centerLockEaseOut :: bool
  centerLockEaseStart :: real
  oscillationPhaseOffset :: real
  isDragging :: bool
  hasMoved :: bool
  dragStartX :: real
  dragStartY :: real
  dragStartPosX :: real
  dragStartPosY :: real
  edgeReturnEasing :: bool
  edgeReturnStart :: real
  edgeReturnStartX :: real
  edgeReturnStartY :: real
  dragEndPosX :: "real option"
  dragEndPosY :: "real option"

text \<open>
  \<open>centerLockEaseDuration\<close> and \<open>edgeReturnDuration\<close> are fields the constructor sets
  and nothing changes; \<open>centerX\<close>, \<open>centerY\<close> are the local constants of every method.
\<close>

definition centerLockEaseDuration :: real where
  "centerLockEaseDuration = 800"

definition edgeReturnDuration :: real where
  "edgeReturnDuration = 600"

abbreviation centerX :: real where
  "centerX \<equiv> 0.5"

abbreviation centerY :: real where
  "centerY \<equiv> 0.5"

text \<open>
  The circular clamp, written twice in the source (in \<open>handleDragMove\<close> with
  \<open>maxRadius = 0.48\<close>, in \<open>updatePosition\<close> with \<open>absoluteMaxRadius = 0.48\<close>):
  \<open>if (dist > r) { x = centerX + (dx / dist) * r; y = centerY + (dy / dist) * r }\<close>.
\<close>

definition clampToDisk :: "real \<Rightarrow> real \<times> real \<Rightarrow> real \<times> real" where
  "clampToDisk r p =
     (let dx = fst p - centerX;
          dy = snd p - centerY;
          dist = sqrt (dx * dx + dy * dy)
      in if dist > r then (centerX + (dx / dist) * r, centerY + (dy / dist) * r) else p)"

text \<open>\<open>1 - Math.pow(1 - t, 3)\<close>, the ease-out curve of both easings.\<close>

definition easeOutCubic :: "real \<Rightarrow> real" where
  "easeOutCubic t = 1 - (1 - t) ^ 3"

definition handleDragStart :: "blob \<Rightarrow> real \<Rightarrow> real \<Rightarrow> blob" where
  "handleDragStart s clientX clientY =
     (if centerLock s then s
      else s\<lparr>isDragging := True, hasMoved := False,
             dragStartX := clientX, dragStartY := clientY,
             dragStartPosX := posX s, dragStartPosY := posY s\<rparr>)"

text \<open>
  \<open>width\<close> and \<open>height\<close> are those of \<open>container.getBoundingClientRect()\<close> at the time
  of the event.
\<close>

definition handleDragMove :: "blob \<Rightarrow> real \<Rightarrow> real \<Rightarrow> real \<Rightarrow> real \<Rightarrow> blob" where
  "handleDragMove s clientX clientY width height =
     (if \<not> isDragging s then s
      else
        (let deltaX = clientX - dragStartX s;
             deltaY = clientY - dragStartY s;
             moved = (if \<bar>deltaX\<bar> > 5 \<or> \<bar>deltaY\<bar> > 5 then True else hasMoved s);
             deltaXPercent = deltaX / width;
             deltaYPercent = deltaY / height;
             p = clampToDisk 0.48 (dragStartPosX s + deltaXPercent, dragStartPosY s + deltaYPercent)
         in s\<lparr>hasMoved := moved, posX := fst p, posY := snd p\<rparr>))"

definition handleDragEnd :: "blob \<Rightarrow> blob" where
  "handleDragEnd s =
     (if \<not> isDragging s then s
      else
        (let s1 = s\<lparr>isDragging := False\<rparr>
         in if hasMoved s1 then
              (let s2 = s1\<lparr>oscillationPhaseOffset := time s1,
                           dragEndPosX := Some (posX s1), dragEndPosY := Some (posY s1)\<rparr>;
                   normalRadius = 0.35;
                   dx = posX s2 - centerX;
                   dy = posY s2 - centerY;
                   dist = sqrt (dx * dx + dy * dy)
               in if dist > normalRadius then
                    s2\<lparr>edgeReturnEasing := True, edgeReturnStart := time s2,
                        edgeReturnStartX := posX s2, edgeReturnStartY := posY s2\<rparr>
                  else s2)
            else s1))"

text \<open>
  The first lines of \<open>generateBlobPath(time)\<close>: the morph intensity that scales every
  noise term of the outline.
\<close>

definition morphIntensity :: "blob \<Rightarrow> real \<Rightarrow> real" where
  "morphIntensity s t =
     (if centerLock s then 0.1
      else if centerLockEaseOut s then
        (let elapsed = t - centerLockEaseStart s;
             tt = min 1 (elapsed / centerLockEaseDuration)
         in 0.1 + tt * 0.9)
      else 1)"

text \<open>
  \<open>updatePosition(time)\<close>, block by block. \<open>edgeReturnStep\<close> is the body of
  \<open>if (this.edgeReturnEasing) { ... }\<close>: it gives the interpolated base and the state with
  \<open>dragEndPosX\<close>, \<open>dragEndPosY\<close> and \<open>edgeReturnEasing\<close> updated.
\<close>

definition edgeReturnStep :: "blob \<Rightarrow> real \<Rightarrow> (real \<times> real) \<times> blob" where
  "edgeReturnStep s t =
     (let normalRadius = 0.35;
          elapsed = t - edgeReturnStart s;
          tt = min 1 (elapsed / edgeReturnDuration);
          easeT = easeOutCubic tt;
          edgeDx = edgeReturnStartX s - centerX;
          edgeDy = edgeReturnStartY s - centerY;
          edgeDist = sqrt (edgeDx * edgeDx + edgeDy * edgeDy);
          clampedBaseX = centerX + (edgeDx / edgeDist) * normalRadius;
          clampedBaseY = centerY + (edgeDy / edgeDist) * normalRadius;
          baseX = edgeReturnStartX s + (clampedBaseX - edgeReturnStartX s) * easeT;
          baseY = edgeReturnStartY s + (clampedBaseY - edgeReturnStartY s) * easeT;
          s1 = s\<lparr>dragEndPosX := Some baseX, dragEndPosY := Some baseY\<rparr>
      in ((baseX, baseY), if tt \<ge> 1 then s1\<lparr>edgeReturnEasing := False\<rparr> else s1))"

text \<open>
  The trend direction, negated when the base lies beyond \<open>returnThreshold\<close> and the
  direction points outward.
\<close>

definition trendDirection :: "blob \<Rightarrow> real \<times> real \<Rightarrow> real \<times> real" where
  "trendDirection s base =
     (let angleRad = (trendAngle s - 90) * (pi / 180);
          dirX = cos angleRad;
          dirY = sin angleRad;
          baseDx = fst base - centerX;
          baseDy = snd base - centerY;
          baseDist = sqrt (baseDx * baseDx + baseDy * baseDy);
          returnThreshold = 0.2
      in if baseDist > returnThreshold then
           (let outwardX = baseDx / baseDist;
                outwardY = baseDy / baseDist;
                dotProduct = dirX * outwardX + dirY * outwardY
            in if dotProduct > 0 then (- dirX, - dirY) else (dirX, dirY))
         else (dirX, dirY))"

definition targetPosition :: "blob \<Rightarrow> real \<Rightarrow> real \<times> real \<Rightarrow> real \<times> real" where
  "targetPosition s t base =
     (let maxRadius = 0.18;
          dir = trendDirection s base;
          dirX = fst dir;
          dirY = snd dir;
          oscillationTime = t - oscillationPhaseOffset s;
          oscillation = sin (oscillationTime * movementSpeed s * 0.8) * maxRadius;
          wobble = noise2D (noise s) (t * movementSpeed s * 0.5) 0 * 0.05;
          perpX = - dirY * wobble;
          perpY = dirX * wobble
      in clampToDisk 0.48 (fst base + dirX * oscillation + perpX,
                           snd base + dirY * oscillation + perpY))"

definition updatePosition :: "blob \<Rightarrow> real \<Rightarrow> blob" where
  "updatePosition s t =
     (if isDragging s then s
      else if centerLock s then s\<lparr>posX := centerX, posY := centerY\<rparr>
      else
        (let base0 = (case dragEndPosX s of Some v \<Rightarrow> v | None \<Rightarrow> centerX,
                      case dragEndPosY s of Some v \<Rightarrow> v | None \<Rightarrow> centerY);
             (base, s1) = (if edgeReturnEasing s then edgeReturnStep s t else (base0, s));
             target = targetPosition s1 t base
         in if centerLockEaseOut s1 then
              (let elapsed = t - centerLockEaseStart s1;
                   tt = min 1 (elapsed / centerLockEaseDuration);
                   easeT = easeOutCubic tt;
                   s2 = s1\<lparr>posX := centerX + (fst target - centerX) * easeT,
                           posY := centerY + (snd target - centerY) * easeT\<rparr>
               in if tt \<ge> 1 then s2\<lparr>centerLockEaseOut := False\<rparr> else s2)
            else s1\<lparr>posX := fst target, posY := snd target\<rparr>))"

definition setTrendDirection :: "blob \<Rightarrow> real \<Rightarrow> blob" where
  "setTrendDirection s angle = s\<lparr>trendAngle := angle\<rparr>"

definition lockToCenter :: "blob \<Rightarrow> blob" where
  "lockToCenter s =
     s\<lparr>centerLock := True, centerLockEaseOut := False,
       dragEndPosX := None, dragEndPosY := None\<rparr>"

definition unlockFromCenter :: "blob \<Rightarrow> blob" where
  "unlockFromCenter s =
     s\<lparr>centerLock := False, centerLockEaseOut := True,
       centerLockEaseStart := time s, oscillationPhaseOffset := time s,
       dragEndPosX := None, dragEndPosY := None\<rparr>"

text \<open>
  \<open>animate()\<close>: \<open>this.time += 16\<close>, the outline for the new time, then
  \<open>updatePosition(this.time)\<close>. \<open>frameMorphIntensity\<close> is the morph intensity
  \<open>generateBlobPath\<close> computes in that frame, before \<open>updatePosition\<close> runs.
\<close>

definition animate :: "blob \<Rightarrow> blob" where
  "animate s = (let s1 = s\<lparr>time := time s + 16\<rparr> in updatePosition s1 (time s1))"

definition frameMorphIntensity :: "blob \<Rightarrow> real" where
  "frameMorphIntensity s = (let s1 = s\<lparr>time := time s + 16\<rparr> in morphIntensity s1 (time s1))"

text \<open>
  The constructor. \<open>rand\<close> is the value of \<open>Math.random()\<close> behind the start time; an
  option is \<open>None\<close> when the caller leaves it out (\<open>initialTrend || 45\<close> also replaces
  \<open>0\<close>). The constructor ends with a first call of \<open>animate()\<close>.
\<close>

definition GlucoseBlob :: "nat list \<Rightarrow> real option \<Rightarrow> real option \<Rightarrow> real option \<Rightarrow> real \<Rightarrow> blob" where
  "GlucoseBlob table optMovementSpeed optMorphSpeed optInitialTrend rand =
     animate
       \<lparr>noise = table,
        movementSpeed = (case optMovementSpeed of Some v \<Rightarrow> v | None \<Rightarrow> 0.00015),
        morphSpeed = (case optMorphSpeed of Some v \<Rightarrow> v | None \<Rightarrow> 0.0003),
        time = rand * 1000,
        posX = 0.5,
        posY = 0.5,
        trendAngle = (case optInitialTrend of Some v \<Rightarrow> (if v = 0 then 45 else v) | None \<Rightarrow> 45),
        centerLock = False,
        centerLockEaseOut = False,
        centerLockEaseStart = 0,
        oscillationPhaseOffset = 0,
        isDragging = False,
        hasMoved = False,
        dragStartX = 0,
        dragStartY = 0,
        dragStartPosX = 0,
        dragStartPosY = 0,
        edgeReturnEasing = False,
        edgeReturnStart = 0,
        edgeReturnStartX = 0,
        edgeReturnStartY = 0,
        dragEndPosX = None,
        dragEndPosY = None\<rparr>"

text \<open>
  What can happen to a blob between two frames, and a frame itself. The scheduler
  (\<open>requestAnimationFrame\<close>) and the input layer decide the order.
\<close>

datatype event =
  Tick
| DragStart real real
| DragMove real real real real
| DragEnd
| LockToCenter
| UnlockFromCenter
| SetTrendDirection real

fun step :: "blob \<Rightarrow> event \<Rightarrow> blob" where
  "step s Tick = animate s"
| "step s (DragStart clientX clientY) = handleDragStart s clientX clientY"
| "step s (DragMove clientX clientY width height) = handleDragMove s clientX clientY width height"
| "step s DragEnd = handleDragEnd s"
| "step s LockToCenter = lockToCenter s"
| "step s UnlockFromCenter = unlockFromCenter s"
| "step s (SetTrendDirection angle) = setTrendDirection s angle"

fun run :: "blob \<Rightarrow> event list \<Rightarrow> blob" where
  "run s [] = s"
| "run s (e # es) = run (step s e) es"

text \<open>The distance of the position from the centre of the watch face.\<close>

definition radius :: "blob \<Rightarrow> real" where
  "radius s = sqrt ((posX s - centerX)\<^sup>2 + (posY s - centerY)\<^sup>2)"

text \<open>
  A drag move divides by the container's size; the model covers a container that is laid
  out (positive width and height).
\<close>

fun event_ok :: "event \<Rightarrow> bool" where
  "event_ok (DragMove clientX clientY width height) = (0 < width \<and> 0 < height)"
| "event_ok e = True"

text \<open>
  The invariant of the motion state: the position lies in the disk of radius \<open>0.48\<close>; an
  ease-out from the centre started in the past; an edge return started from a point
  outside the comfortable radius (so \<open>edgeDist\<close> is not zero where the code divides by it).
\<close>

definition motion_inv :: "blob \<Rightarrow> bool" where
  "motion_inv s \<longleftrightarrow>
     radius s \<le> 0.48 \<and>
     (centerLockEaseOut s \<longrightarrow> centerLockEaseStart s \<le> time s) \<and>
     (edgeReturnEasing s \<longrightarrow>
        0.35 < sqrt ((edgeReturnStartX s - centerX)\<^sup>2 + (edgeReturnStartY s - centerY)\<^sup>2))"



text \<open>
  A drag that is in progress when the lock is engaged: after one locked frame and an
  unlock the pointer goes down at \<open>(100, 100)\<close>; the blob is locked again; the pointer
  moves 50 pixels to the right in a container of 250 by 250 pixels; a frame follows.
\<close>

definition dragThenLock :: "event list" where
  "dragThenLock = [LockToCenter, Tick, UnlockFromCenter, DragStart 100 100,
                   LockToCenter, DragMove 150 100 250 250, Tick]"

text \<open>A blob with the default options, built at start time \<open>0\<close>.\<close>

definition defaultBlob :: blob where
  "defaultBlob = GlucoseBlob (SimplexNoise (\<lambda>i. 0)) None None None 0"

text \<open>
  The morph intensity as the specification words it, for comparison with the code: a
  cubic ease-out of the elapsed time over the unlock duration of 800 ms, from \<open>0.1\<close> to \<open>1\<close>.
\<close>

definition claimedMorphIntensity :: "real \<Rightarrow> real" where
  "claimedMorphIntensity elapsed = 0.1 + easeOutCubic (min 1 (elapsed / 800)) * 0.9"

section \<open>Colour zones (blob.js and the graph slider)\<close>

text \<open>
  A colour is the triple of channel values that \<open>blendColors\<close> reads with
  \<open>parseInt(..., 16)\<close> from a hex string such as \<open>#7ED321\<close>; the formatting back to a hex
  string (two lower-case hex digits per channel) is not modelled.
\<close>

record rgb =
  red :: int
  green :: int
  blue :: int

definition SAFE :: rgb where
  "SAFE = \<lparr>red = 126, green = 211, blue = 33\<rparr>"

definition WARNING :: rgb where
  "WARNING = \<lparr>red = 255, green = 215, blue = 0\<rparr>"

definition DANGER :: rgb where
  "DANGER = \<lparr>red = 255, green = 68, blue = 68\<rparr>"

text \<open>\<open>Math.round\<close> rounds to the nearest integer, a half upwards.\<close>

definition Math_round :: "real \<Rightarrow> int" where
  "Math_round x = \<lfloor>x + 1 / 2\<rfloor>"

definition blendColors :: "rgb \<Rightarrow> rgb \<Rightarrow> real \<Rightarrow> rgb" where
  "blendColors color1 color2 t =
     \<lparr>red = Math_round (of_int (red color1) + (of_int (red color2) - of_int (red color1)) * t),
      green = Math_round (of_int (green color1) + (of_int (green color2) - of_int (green color1)) * t),
      blue = Math_round (of_int (blue color1) + (of_int (blue color2) - of_int (blue color1)) * t)\<rparr>"

text \<open>The thresholds \<open>GLUCOSE_RANGES\<close> of blob.js (mmol/L).\<close>

definition DANGER_LOW :: real where "DANGER_LOW = 4.0"
definition WARNING_LOW :: real where "WARNING_LOW = 4.5"
definition WARNING_HIGH :: real where "WARNING_HIGH = 9.0"
definition DANGER_HIGH :: real where "DANGER_HIGH = 10.0"

text \<open>\<open>GlucoseBlob.getColorForGlucose\<close> (blob.js).\<close>

definition blob_getColorForGlucose :: "real \<Rightarrow> rgb" where
  "blob_getColorForGlucose glucose =
     (if glucose < DANGER_LOW - 0.3 \<or> glucose > DANGER_HIGH + 0.3 then DANGER
      else if glucose > WARNING_LOW + 0.3 \<and> glucose < WARNING_HIGH - 0.3 then SAFE
      else if glucose \<ge> WARNING_HIGH - 0.3 \<and> glucose \<le> DANGER_HIGH + 0.3 then
        (if glucose > DANGER_HIGH then
           blendColors WARNING DANGER (min 1 ((glucose - DANGER_HIGH) / 0.5))
         else if glucose < WARNING_HIGH then
           blendColors WARNING SAFE (min 1 ((WARNING_HIGH - glucose) / 0.5))
         else WARNING)
      else if glucose \<ge> DANGER_LOW - 0.3 \<and> glucose \<le> WARNING_LOW + 0.3 then
        (if glucose < DANGER_LOW then
           blendColors WARNING DANGER (min 1 ((DANGER_LOW - glucose) / 0.5))
         else if glucose > WARNING_LOW then
           blendColors WARNING SAFE (min 1 ((glucose - WARNING_LOW) / 0.5))
         else WARNING)
      else SAFE)"

text \<open>\<open>GraphSlider.getColorForGlucose\<close> (the graph slider).\<close>

definition slider_getColorForGlucose :: "real \<Rightarrow> rgb" where
  "slider_getColorForGlucose glucose =
     (if glucose \<le> 4.0 \<or> glucose \<ge> 10.0 then DANGER
      else if glucose \<ge> 4.5 \<and> glucose \<le> 9.0 then SAFE
      else if glucose > 9.0 \<and> glucose < 10.0 then
        (if glucose \<ge> 9.5 then blendColors WARNING DANGER ((glucose - 9.5) / 0.5)
         else WARNING)
      else if glucose > 4.0 \<and> glucose < 4.5 then
        blendColors WARNING DANGER ((4.5 - glucose) / 0.5)
      else SAFE)"

text \<open>One channel of \<open>blendColors\<close>: the rounded interpolation between two channel values.\<close>

definition channel :: "int \<Rightarrow> int \<Rightarrow> real \<Rightarrow> int" where
  "channel c1 c2 t = Math_round (of_int c1 + (of_int c2 - of_int c1) * t)"

section \<open>Curve sampler and zone segmenter (the graph slider)\<close>

datatype point = Point (pt_x: real) (pt_y: real)

datatype crossing = Crossing (cross_x: real) (cross_y: real) (cross_boundary: string)

record segment =
  startX :: real
  endX :: real
  zone :: string

text \<open>The fields of \<open>GraphSlider\<close> behind the sampler, the segmenter and the value mapping.\<close>

record graph_slider =
  minX :: real
  maxX :: real
  upperBoundaryY :: real
  lowerBoundaryY :: real
  pathSamples :: "point list"
  boundaryCrossings :: "crossing list"
  segments :: "segment list"

text \<open>
  \<open>samplePath()\<close>: 201 points of the path at equal arc-length steps, sorted by \<open>x\<close>. The
  DOM path is the parameter \<open>getPointAtLength\<close> with its \<open>pathLength\<close>
  (\<open>getTotalLength()\<close>). \<open>Array.prototype.sort\<close> is stable, as \<open>sort_key\<close> is.
\<close>

definition samplePath :: "(real \<Rightarrow> point) \<Rightarrow> real \<Rightarrow> graph_slider \<Rightarrow> graph_slider" where
  "samplePath getPointAtLength pathLength gs =
     (let numSamples = 200;
          samples = map (\<lambda>i. getPointAtLength ((real i / real numSamples) * pathLength))
                        [0 ..< numSamples + 1]
      in gs\<lparr>pathSamples := sort_key pt_x samples\<rparr>)"

text \<open>
  \<open>getYForX(x)\<close>. \<open>findBracket\<close> is the loop that stops at the first adjacent pair of
  samples around \<open>x\<close>; without one, \<open>lower\<close> and \<open>upper\<close> keep their initial values, the
  first and the last sample. With no sample at all the source reads \<open>undefined.x\<close> and
  throws: \<open>None\<close>.
\<close>

fun findBracket :: "point list \<Rightarrow> real \<Rightarrow> (point \<times> point) option" where
  "findBracket (a # b # rest) x =
     (if pt_x a \<le> x \<and> pt_x b \<ge> x then Some (a, b) else findBracket (b # rest) x)"
| "findBracket samples x = None"

definition getYForX :: "graph_slider \<Rightarrow> real \<Rightarrow> real option" where
  "getYForX gs x =
     (case pathSamples gs of
        [] \<Rightarrow> None
      | first # rest \<Rightarrow>
          (let (lower, upper) =
                 (case findBracket (first # rest) x of
                    Some pair \<Rightarrow> pair
                  | None \<Rightarrow> (first, last (first # rest)))
           in Some (if pt_x upper = pt_x lower then pt_y lower
                    else (let t = (x - pt_x lower) / (pt_x upper - pt_x lower)
                          in pt_y lower + t * (pt_y upper - pt_y lower)))))"

definition getZoneNameForY :: "real \<Rightarrow> string" where
  "getZoneNameForY y =
     (let DANGER_HIGH_Y = 96; WARNING_HIGH_Y = 106; WARNING_LOW_Y = 151; DANGER_LOW_Y = 156
      in if y < DANGER_HIGH_Y then ''danger-high''
         else if y \<le> WARNING_HIGH_Y then ''warning-high''
         else if y < WARNING_LOW_Y then ''safe''
         else if y \<le> DANGER_LOW_Y then ''warning-low''
         else ''danger-low'')"

text \<open>
  \<open>buildSegments()\<close>: one segment per crossing, from the previous crossing (or \<open>minX\<close>),
  and a final one up to \<open>maxX\<close>; the zone of each is looked up at the curve's \<open>y\<close> over the
  segment's midpoint.
\<close>

fun segmentsFrom :: "graph_slider \<Rightarrow> real \<Rightarrow> crossing list \<Rightarrow> segment list option" where
  "segmentsFrom gs lastX [] =
     (case getYForX gs ((lastX + maxX gs) / 2) of
        None \<Rightarrow> None
      | Some midY \<Rightarrow> Some [\<lparr>startX = lastX, endX = maxX gs, zone = getZoneNameForY midY\<rparr>])"
| "segmentsFrom gs lastX (c # cs) =
     (case getYForX gs ((lastX + cross_x c) / 2) of
        None \<Rightarrow> None
      | Some midY \<Rightarrow>
          (case segmentsFrom gs (cross_x c) cs of
             None \<Rightarrow> None
           | Some others \<Rightarrow>
               Some (\<lparr>startX = lastX, endX = cross_x c, zone = getZoneNameForY midY\<rparr> # others)))"

definition buildSegments :: "graph_slider \<Rightarrow> graph_slider option" where
  "buildSegments gs =
     (case segmentsFrom gs (minX gs) (boundaryCrossings gs) of
        None \<Rightarrow> None
      | Some segs \<Rightarrow> Some (gs\<lparr>segments := segs\<rparr>))"

text \<open>
  \<open>findBoundaryCrossings()\<close>: for every adjacent pair of samples and every boundary line
  between their \<open>y\<close> values, the crossing's \<open>x\<close> by linear interpolation; the crossings
  sorted by \<open>x\<close>; then \<open>buildSegments()\<close>.
\<close>

definition boundaries :: "(real \<times> string) list" where
  "boundaries = [(96, ''danger-high''), (106, ''warning-high''),
                 (151, ''warning-low''), (156, ''danger-low'')]"

definition crossingsBetween :: "point \<Rightarrow> point \<Rightarrow> crossing list" where
  "crossingsBetween prev cur =
     concat (map (\<lambda>(by, name).
        if (pt_y prev < by \<and> pt_y cur \<ge> by) \<or> (pt_y prev \<ge> by \<and> pt_y cur < by) then
          (let t = (by - pt_y prev) / (pt_y cur - pt_y prev);
               crossX = pt_x prev + t * (pt_x cur - pt_x prev)
           in [Crossing crossX by name])
        else []) boundaries)"

fun scanCrossings :: "point list \<Rightarrow> crossing list" where
  "scanCrossings (prev # cur # rest) = crossingsBetween prev cur @ scanCrossings (cur # rest)"
| "scanCrossings samples = []"

definition findBoundaryCrossings :: "graph_slider \<Rightarrow> graph_slider option" where
  "findBoundaryCrossings gs =
     buildSegments (gs\<lparr>boundaryCrossings := sort_key cross_x (scanCrossings (pathSamples gs))\<rparr>)"

text \<open>The affine mapping between a glucose value and a \<open>y\<close> coordinate.\<close>

definition yToGlucose :: "graph_slider \<Rightarrow> real \<Rightarrow> real" where
  "yToGlucose gs y = (let glucosePerPixel = 6 / 60 in 10 - (y - upperBoundaryY gs) * glucosePerPixel)"

definition glucoseToY :: "graph_slider \<Rightarrow> real \<Rightarrow> real" where
  "glucoseToY gs glucose =
     (let glucosePerPixel = 6 / 60 in upperBoundaryY gs + (10 - glucose) / glucosePerPixel)"

text \<open>
  The constructor's field values, and \<open>init()\<close> as far as the sampler and the segmenter
  go: \<open>samplePath()\<close>, then \<open>findBoundaryCrossings()\<close>.
\<close>

definition GraphSlider :: "(real \<Rightarrow> point) \<Rightarrow> real \<Rightarrow> graph_slider option" where
  "GraphSlider getPointAtLength pathLength =
     findBoundaryCrossings
       (samplePath getPointAtLength pathLength
          \<lparr>minX = 0, maxX = 206, upperBoundaryY = 96, lowerBoundaryY = 156,
           pathSamples = [], boundaryCrossings = [], segments = []\<rparr>)"

text \<open>
  The last lines of \<open>getYForX\<close> on their own: the value at \<open>x\<close> of the straight line
  through \<open>lower\<close> and \<open>upper\<close> (the \<open>y\<close> of \<open>lower\<close> when the two share their \<open>x\<close>).
\<close>

definition interpolate :: "point \<Rightarrow> point \<Rightarrow> real \<Rightarrow> real" where
  "interpolate lower upper x =
     (if pt_x upper = pt_x lower then pt_y lower
      else pt_y lower + (x - pt_x lower) / (pt_x upper - pt_x lower) * (pt_y upper - pt_y lower))"

text \<open>Two small sampled curves on the slider's domain, one rising, one falling and rising.\<close>

definition sampleCurve :: graph_slider where
  "sampleCurve = \<lparr>minX = 0, maxX = 206, upperBoundaryY = 96, lowerBoundaryY = 156,
     pathSamples = [Point 0 100, Point 100 120, Point 200 150],
     boundaryCrossings = [], segments = []\<rparr>"

definition oscillatingCurve :: graph_slider where
  "oscillatingCurve = \<lparr>minX = 0, maxX = 206, upperBoundaryY = 96, lowerBoundaryY = 156,
     pathSamples = [Point 0 100, Point 103 160, Point 206 100],
     boundaryCrossings = [], segments = []\<rparr>"

section \<open>Properties of the noise source\<close>

lemma fade_nonneg: "0 \<le> t \<Longrightarrow> 0 \<le> fade t"
proof -
  assume t: "0 \<le> t"
  have q: "t * (t * 6 - 15) + 10 = 6 * (t - 5 / 4)\<^sup>2 + 5 / 8"
    by (simp add: power2_eq_square algebra_simps)
  have "0 \<le> t * (t * 6 - 15) + 10"
    unfolding q by (intro add_nonneg_nonneg mult_nonneg_nonneg) simp_all
  with t show ?thesis
    unfolding fade_def by (intro mult_nonneg_nonneg) simp_all
qed

lemma fade_le_one: "t \<le> 1 \<Longrightarrow> fade t \<le> 1"
proof -
  assume t: "t \<le> 1"
  have e: "1 - fade t = (1 - t) * (1 - t) * (1 - t) * (6 * t\<^sup>2 + 3 * t + 1)"
    by (simp add: fade_def power2_eq_square algebra_simps)
  have q: "6 * t\<^sup>2 + 3 * t + 1 = 6 * (t + 1 / 4)\<^sup>2 + 5 / 8"
    by (simp add: power2_eq_square algebra_simps)
  have "0 \<le> 6 * t\<^sup>2 + 3 * t + 1"
    unfolding q by (intro add_nonneg_nonneg mult_nonneg_nonneg) simp_all
  with t have "0 \<le> 1 - fade t"
    unfolding e by (intro mult_nonneg_nonneg) simp_all
  then show ?thesis by simp
qed

lemma fade_tent: "t + fade t * (1 - 2 * t) \<le> 1 / 2"
proof -
  define s where "s = t * (1 - t)"
  have e: "t + fade t * (1 - 2 * t) - 1 / 2
             = - (2 * (t - 1 / 2)\<^sup>2 * (6 * s\<^sup>2 + 2 * s + 1))"
    by (simp add: fade_def s_def power2_eq_square algebra_simps)
  have q: "6 * s\<^sup>2 + 2 * s + 1 = 6 * (s + 1 / 6)\<^sup>2 + 5 / 6"
    by (simp add: power2_eq_square algebra_simps)
  have "0 \<le> 6 * s\<^sup>2 + 2 * s + 1"
    unfolding q by (intro add_nonneg_nonneg mult_nonneg_nonneg) simp_all
  then have "0 \<le> 2 * (t - 1 / 2)\<^sup>2 * (6 * s\<^sup>2 + 2 * s + 1)"
    by (intro mult_nonneg_nonneg) simp_all
  with e show ?thesis by linarith
qed

lemma grad_cases: "grad h a b = a + b \<or> grad h a b = b - a \<or> grad h a b = - a - b"
proof -
  have "h mod 4 = 0 \<or> h mod 4 = 1 \<or> h mod 4 = 2 \<or> h mod 4 = 3"
    by arith
  then show ?thesis
    by (elim disjE) (simp_all add: grad_def Let_def)
qed

lemma grad_abs_le: "\<bar>grad h a b\<bar> \<le> \<bar>a\<bar> + \<bar>b\<bar>"
  using grad_cases [of h a b] by (elim disjE) simp_all

lemma lerp_abs_le:
  assumes "0 \<le> t" "t \<le> 1" "\<bar>a\<bar> \<le> A" "\<bar>b\<bar> \<le> B"
  shows "\<bar>lerp a b t\<bar> \<le> (1 - t) * A + t * B"
proof -
  have "lerp a b t = (1 - t) * a + t * b"
    by (simp add: lerp_def algebra_simps)
  then have "\<bar>lerp a b t\<bar> \<le> \<bar>(1 - t) * a\<bar> + \<bar>t * b\<bar>"
    by (simp add: abs_triangle_ineq)
  also have "\<dots> = (1 - t) * \<bar>a\<bar> + t * \<bar>b\<bar>"
    using assms(1,2) by (simp add: abs_mult)
  also have "\<dots> \<le> (1 - t) * A + t * B"
    using assms by (intro add_mono mult_left_mono) simp_all
  finally show ?thesis .
qed

lemma noise2D_abs_le: "\<bar>noise2D perm x y\<bar> \<le> 1"
proof -
  define xf where "xf = x - of_int \<lfloor>x\<rfloor>"
  define yf where "yf = y - of_int \<lfloor>y\<rfloor>"
  define u where "u = fade xf"
  define v where "v = fade yf"
  define xi where "xi = nat (\<lfloor>x\<rfloor> mod 256)"
  define yi where "yi = nat (\<lfloor>y\<rfloor> mod 256)"
  define g00 where "g00 = grad (perm ! (perm ! xi + yi)) xf yf"
  define g10 where "g10 = grad (perm ! (perm ! (xi + 1) + yi)) (xf - 1) yf"
  define g01 where "g01 = grad (perm ! (perm ! xi + yi + 1)) xf (yf - 1)"
  define g11 where "g11 = grad (perm ! (perm ! (xi + 1) + yi + 1)) (xf - 1) (yf - 1)"
  have xf: "0 \<le> xf" "xf \<le> 1" and yf: "0 \<le> yf" "yf \<le> 1"
    unfolding xf_def yf_def by linarith+
  have u: "0 \<le> u" "u \<le> 1" and v: "0 \<le> v" "v \<le> 1"
    unfolding u_def v_def using xf yf by (simp_all add: fade_nonneg fade_le_one)
  have b00: "\<bar>g00\<bar> \<le> xf + yf"
    using grad_abs_le [of "perm ! (perm ! xi + yi)" xf yf] xf yf
    unfolding g00_def by simp
  have b10: "\<bar>g10\<bar> \<le> (1 - xf) + yf"
    using grad_abs_le [of "perm ! (perm ! (xi + 1) + yi)" "xf - 1" yf] xf yf
    unfolding g10_def by simp
  have b01: "\<bar>g01\<bar> \<le> xf + (1 - yf)"
    using grad_abs_le [of "perm ! (perm ! xi + yi + 1)" xf "yf - 1"] xf yf
    unfolding g01_def by simp
  have b11: "\<bar>g11\<bar> \<le> (1 - xf) + (1 - yf)"
    using grad_abs_le [of "perm ! (perm ! (xi + 1) + yi + 1)" "xf - 1" "yf - 1"] xf yf
    unfolding g11_def by simp
  have lo: "\<bar>lerp g00 g10 u\<bar> \<le> (1 - u) * (xf + yf) + u * ((1 - xf) + yf)"
    by (rule lerp_abs_le [OF u b00 b10])
  have hi: "\<bar>lerp g01 g11 u\<bar> \<le> (1 - u) * (xf + (1 - yf)) + u * ((1 - xf) + (1 - yf))"
    by (rule lerp_abs_le [OF u b01 b11])
  have n: "noise2D perm x y = lerp (lerp g00 g10 u) (lerp g01 g11 u) v"
    unfolding noise2D_def Let_def g00_def g10_def g01_def g11_def u_def v_def
      xf_def yf_def xi_def yi_def by simp
  have "\<bar>noise2D perm x y\<bar>
          \<le> (1 - v) * ((1 - u) * (xf + yf) + u * ((1 - xf) + yf))
            + v * ((1 - u) * (xf + (1 - yf)) + u * ((1 - xf) + (1 - yf)))"
    unfolding n by (rule lerp_abs_le [OF v lo hi])
  also have "\<dots> = (xf + u * (1 - 2 * xf)) + (yf + v * (1 - 2 * yf))"
    by (simp add: algebra_simps)
  also have "\<dots> \<le> 1 / 2 + 1 / 2"
    unfolding u_def v_def by (intro add_mono fade_tent)
  finally show ?thesis by simp
qed

lemma noise2D_lattice: "noise2D perm (of_int i) (of_int j) = 0"
  by (simp add: noise2D_def Let_def fade_def lerp_def grad_def)

text \<open>
  With random numbers in \<open>[0, 1)\<close> the constructed table has 512 entries below 256, so
  every lookup of \<open>noise2D\<close> reads inside the table.
\<close>

lemma swap_entries_bounded:
  assumes "i < length p" "j < length p" "\<forall>k < length p. p ! k < 256"
  shows "length (swap_entries p i j) = length p"
    and "\<forall>k < length (swap_entries p i j). swap_entries p i j ! k < 256"
  using assms by (simp_all add: swap_entries_def nth_list_update)

lemma shuffle_bounded:
  assumes "\<forall>i. 0 \<le> rnd i \<and> rnd i < 1" "n < length p" "\<forall>k < length p. p ! k < 256"
  shows "length (shuffle rnd n p) = length p
         \<and> (\<forall>k < length p. shuffle rnd n p ! k < 256)"
  using assms(2,3)
proof (induction n arbitrary: p)
  case 0
  then show ?case by simp
next
  case (Suc n)
  define j where "j = nat \<lfloor>rnd (Suc n) * real (Suc n + 1)\<rfloor>"
  have r: "0 \<le> rnd (Suc n)" "rnd (Suc n) < 1" using assms(1) by simp_all
  have "rnd (Suc n) * real (Suc n + 1) < 1 * real (Suc n + 1)"
    using r by (intro mult_strict_right_mono) simp_all
  then have "\<lfloor>rnd (Suc n) * real (Suc n + 1)\<rfloor> < int (Suc n + 1)"
    by (simp add: floor_less_iff)
  then have "j < Suc n + 1" unfolding j_def by linarith
  with Suc.prems have jl: "j < length p" by simp
  note sw = swap_entries_bounded [OF Suc.prems(1) jl Suc.prems(2)]
  have "n < length (swap_entries p (Suc n) j)" using Suc.prems(1) sw(1) by simp
  from Suc.IH [OF this sw(2)] sw(1) show ?case
    by (simp add: Let_def j_def)
qed

lemma SimplexNoise_table:
  assumes "\<forall>i. 0 \<le> rnd i \<and> rnd i < 1"
  shows "length (SimplexNoise rnd) = 512 \<and> (\<forall>k < 512. SimplexNoise rnd ! k < 256)"
proof -
  define p where "p = shuffle rnd 255 [0 ..< 256]"
  have "length p = 256 \<and> (\<forall>k < 256. p ! k < 256)"
    using shuffle_bounded [OF assms, of 255 "[0 ..< 256]"] by (simp add: p_def)
  then show ?thesis
    by (simp add: SimplexNoise_def Let_def p_def [symmetric])
qed

lemma noise2D_lookups_in_range:
  assumes "\<forall>i. 0 \<le> rnd i \<and> rnd i < 1"
  shows "nat (\<lfloor>x\<rfloor> mod 256) + 1 < length (SimplexNoise rnd)
     \<and> SimplexNoise rnd ! nat (\<lfloor>x\<rfloor> mod 256) + nat (\<lfloor>y\<rfloor> mod 256) + 1 < length (SimplexNoise rnd)
     \<and> SimplexNoise rnd ! (nat (\<lfloor>x\<rfloor> mod 256) + 1) + nat (\<lfloor>y\<rfloor> mod 256) + 1
          < length (SimplexNoise rnd)"
proof -
  note t = SimplexNoise_table [OF assms]
  have xi: "nat (\<lfloor>x\<rfloor> mod 256) < 256" and yi: "nat (\<lfloor>y\<rfloor> mod 256) < 256"
    by simp_all
  have a: "SimplexNoise rnd ! nat (\<lfloor>x\<rfloor> mod 256) < 256" using t xi by simp
  have b: "SimplexNoise rnd ! (nat (\<lfloor>x\<rfloor> mod 256) + 1) < 256" using t xi by simp
  from t xi yi a b show ?thesis by linarith
qed

text \<open>
  Claim C9. For every noise instance the constructor can build (every stream of random
  numbers behind the shuffle) and all real \<open>x\<close> and \<open>y\<close>, the sample \<open>noise2D(x, y)\<close>
  lies in the closed interval from \<open>-1\<close> to \<open>1\<close>. Each corner gradient is bounded by the sum
  of the absolute offsets to that corner, and the faded bilinear blend of those four bounds
  is at most \<open>1/2 + 1/2\<close>.
\<close>

theorem noise2D_in_unit_interval:
  "- 1 \<le> noise2D (SimplexNoise rnd) x y \<and> noise2D (SimplexNoise rnd) x y \<le> 1"
  using noise2D_abs_le [of "SimplexNoise rnd" x y] by (simp add: abs_le_iff)

text \<open>
  Claim C10. Whatever the permutation table, \<open>noise2D(x, y)\<close> is exactly \<open>0\<close> when \<open>x\<close>
  and \<open>y\<close> are both integers: the fractional offsets and both fade weights are \<open>0\<close>, so the
  result is the gradient of the first corner at offset \<open>(0, 0)\<close>. In particular
  \<open>noise2D(0, 0) = 0\<close> for every constructed instance.
\<close>

theorem noise2D_zero_on_lattice:
  "noise2D perm (of_int i) (of_int j) = 0 \<and> noise2D (SimplexNoise rnd) 0 0 = 0"
  using noise2D_lattice [of perm i j] noise2D_lattice [of "SimplexNoise rnd" 0 0] by simp

section \<open>The position stays inside the watch face\<close>

lemma sqrt_sq_le_iff: "0 \<le> r \<Longrightarrow> sqrt (a\<^sup>2 + b\<^sup>2) \<le> r \<longleftrightarrow> a\<^sup>2 + b\<^sup>2 \<le> r\<^sup>2"
  by (metis real_sqrt_le_iff real_sqrt_abs abs_of_nonneg)

lemma clampToDisk_radius:
  assumes r: "0 \<le> r"
  shows "sqrt ((fst (clampToDisk r p) - centerX)\<^sup>2 + (snd (clampToDisk r p) - centerY)\<^sup>2) \<le> r"
proof -
  define dx where "dx = fst p - centerX"
  define dy where "dy = snd p - centerY"
  define d where "d = sqrt (dx * dx + dy * dy)"
  show ?thesis
  proof (cases "d > r")
    case False
    then have "clampToDisk r p = p"
      by (simp add: clampToDisk_def Let_def d_def dx_def dy_def)
    with False show ?thesis
      by (simp add: d_def dx_def dy_def power2_eq_square)
  next
    case True
    then have dpos: "0 < d" using r by linarith
    have d2: "d\<^sup>2 = dx\<^sup>2 + dy\<^sup>2"
      unfolding d_def by (simp add: power2_eq_square)
    have c: "clampToDisk r p = (centerX + (dx / d) * r, centerY + (dy / d) * r)"
      using True by (simp add: clampToDisk_def Let_def d_def dx_def dy_def)
    have "(dx / d * r)\<^sup>2 + (dy / d * r)\<^sup>2 = (dx\<^sup>2 + dy\<^sup>2) / d\<^sup>2 * r\<^sup>2"
      by (simp add: power_mult_distrib power_divide algebra_simps add_divide_distrib)
    also have "\<dots> = r\<^sup>2"
      unfolding d2 [symmetric] using dpos by simp
    finally have "sqrt ((dx / d * r)\<^sup>2 + (dy / d * r)\<^sup>2) = r"
      using r by simp
    then show ?thesis
      unfolding c by simp
  qed
qed

lemma easeOutCubic_range: "0 \<le> t \<Longrightarrow> t \<le> 1 \<Longrightarrow> 0 \<le> easeOutCubic t \<and> easeOutCubic t \<le> 1"
proof -
  assume t: "0 \<le> t" "t \<le> 1"
  have a: "0 \<le> (1 - t) ^ 3" using t by simp
  have "(1 - t) ^ 3 \<le> 1 ^ 3" using t by (intro power_mono) simp_all
  with a show ?thesis by (simp add: easeOutCubic_def)
qed

lemma scaled_radius:
  assumes "0 \<le> e" "e \<le> 1"
  shows "sqrt ((centerX + (x - centerX) * e - centerX)\<^sup>2 + (centerY + (y - centerY) * e - centerY)\<^sup>2)
           \<le> sqrt ((x - centerX)\<^sup>2 + (y - centerY)\<^sup>2)"
proof -
  have "(centerX + (x - centerX) * e - centerX)\<^sup>2 + (centerY + (y - centerY) * e - centerY)\<^sup>2
          = e\<^sup>2 * ((x - centerX)\<^sup>2 + (y - centerY)\<^sup>2)"
    by (simp add: power2_eq_square algebra_simps)
  also have "\<dots> \<le> 1 * ((x - centerX)\<^sup>2 + (y - centerY)\<^sup>2)"
    using assms by (intro mult_right_mono) (simp_all add: power_le_one)
  finally show ?thesis by simp
qed


lemma targetPosition_radius:
  "sqrt ((fst (targetPosition s t b) - centerX)\<^sup>2 + (snd (targetPosition s t b) - centerY)\<^sup>2) \<le> 0.48"
  unfolding targetPosition_def Let_def by (rule clampToDisk_radius) simp

lemma edgeReturnStep_frame:
  "centerLockEaseOut (snd (edgeReturnStep s t)) = centerLockEaseOut s"
  "centerLockEaseStart (snd (edgeReturnStep s t)) = centerLockEaseStart s"
  "time (snd (edgeReturnStep s t)) = time s"
  "edgeReturnStartX (snd (edgeReturnStep s t)) = edgeReturnStartX s"
  "edgeReturnStartY (snd (edgeReturnStep s t)) = edgeReturnStartY s"
  "isDragging (snd (edgeReturnStep s t)) = isDragging s"
  "centerLock (snd (edgeReturnStep s t)) = centerLock s"
  by (simp_all add: edgeReturnStep_def Let_def)

lemma updatePosition_cases:
  obtains (drag) "isDragging s" "updatePosition s t = s"
  | (lock) "\<not> isDragging s" "centerLock s" "updatePosition s t = s\<lparr>posX := centerX, posY := centerY\<rparr>"
  | (move) base s1 target where
      "\<not> isDragging s" "\<not> centerLock s"
      "base = (if edgeReturnEasing s then fst (edgeReturnStep s t)
               else (case dragEndPosX s of Some v \<Rightarrow> v | None \<Rightarrow> centerX,
                     case dragEndPosY s of Some v \<Rightarrow> v | None \<Rightarrow> centerY))"
      "s1 = (if edgeReturnEasing s then snd (edgeReturnStep s t) else s)"
      "target = targetPosition s1 t base"
      "updatePosition s t =
         (if centerLockEaseOut s1 then
            (let tt = min 1 ((t - centerLockEaseStart s1) / centerLockEaseDuration);
                 s2 = s1\<lparr>posX := centerX + (fst target - centerX) * easeOutCubic tt,
                         posY := centerY + (snd target - centerY) * easeOutCubic tt\<rparr>
             in if tt \<ge> 1 then s2\<lparr>centerLockEaseOut := False\<rparr> else s2)
          else s1\<lparr>posX := fst target, posY := snd target\<rparr>)"
proof (cases "isDragging s")
  case True
  then show ?thesis using drag by (simp add: updatePosition_def)
next
  case nd: False
  show ?thesis
  proof (cases "centerLock s")
    case True
    with nd show ?thesis using lock by (simp add: updatePosition_def)
  next
    case False
    show ?thesis
      by (rule move [OF nd False refl refl refl])
        (simp add: updatePosition_def nd False Let_def split_beta)
  qed
qed


lemma updatePosition_inv:
  assumes inv: "motion_inv s"
  shows "motion_inv (updatePosition s (time s))"
proof (cases rule: updatePosition_cases [where s = s and t = "time s"])
  case drag
  with inv show ?thesis by simp
next
  case lock
  with inv show ?thesis by (simp add: motion_inv_def radius_def)
next
  case (move base s1 target)
  have f: "centerLockEaseOut s1 = centerLockEaseOut s"
    "centerLockEaseStart s1 = centerLockEaseStart s"
    "time s1 = time s"
    "edgeReturnStartX s1 = edgeReturnStartX s"
    "edgeReturnStartY s1 = edgeReturnStartY s"
    "edgeReturnEasing s1 \<longrightarrow> edgeReturnEasing s"
    unfolding move(4) by (simp_all add: edgeReturnStep_frame)
  have tr: "sqrt ((fst target - centerX)\<^sup>2 + (snd target - centerY)\<^sup>2) \<le> 0.48"
    unfolding move(5) by (rule targetPosition_radius)
  show ?thesis
  proof (cases "centerLockEaseOut s1")
    case False
    then have u: "updatePosition s (time s) = s1\<lparr>posX := fst target, posY := snd target\<rparr>"
      using move(6) by simp
    show ?thesis
      unfolding u using inv f tr False by (simp add: motion_inv_def radius_def)
  next
    case True
    define tt where "tt = min 1 ((time s - centerLockEaseStart s1) / centerLockEaseDuration)"
    define s2 where "s2 = s1\<lparr>posX := centerX + (fst target - centerX) * easeOutCubic tt,
                           posY := centerY + (snd target - centerY) * easeOutCubic tt\<rparr>"
    have u: "updatePosition s (time s) = (if tt \<ge> 1 then s2\<lparr>centerLockEaseOut := False\<rparr> else s2)"
      using move(6) True by (simp add: Let_def tt_def s2_def)
    have "centerLockEaseStart s \<le> time s"
      using inv True f by (simp add: motion_inv_def)
    then have "0 \<le> tt" "tt \<le> 1"
      by (simp_all add: tt_def f centerLockEaseDuration_def)
    then have e: "0 \<le> easeOutCubic tt" "easeOutCubic tt \<le> 1"
      using easeOutCubic_range by blast+
    have "radius s2 \<le> sqrt ((fst target - centerX)\<^sup>2 + (snd target - centerY)\<^sup>2)"
      unfolding radius_def s2_def using scaled_radius [OF e] by simp
    with tr have r: "radius s2 \<le> 0.48" by linarith
    have r': "radius (s2\<lparr>centerLockEaseOut := False\<rparr>) = radius s2"
      by (simp add: radius_def)
    have g: "centerLockEaseOut s2 = centerLockEaseOut s1"
      "centerLockEaseStart s2 = centerLockEaseStart s1"
      "time s2 = time s1"
      "edgeReturnStartX s2 = edgeReturnStartX s1"
      "edgeReturnStartY s2 = edgeReturnStartY s1"
      "edgeReturnEasing s2 = edgeReturnEasing s1"
      by (simp_all add: s2_def)
    show ?thesis
      unfolding u using inv f g r r' by (simp add: motion_inv_def)
  qed
qed

lemma animate_inv: "motion_inv s \<Longrightarrow> motion_inv (animate s)"
proof -
  assume inv: "motion_inv s"
  define s1 where "s1 = s\<lparr>time := time s + 16\<rparr>"
  have "motion_inv s1"
    using inv by (auto simp: motion_inv_def radius_def s1_def)
  then have "motion_inv (updatePosition s1 (time s1))"
    by (rule updatePosition_inv)
  then show ?thesis
    by (simp add: animate_def Let_def s1_def)
qed

lemma handleDragStart_inv: "motion_inv s \<Longrightarrow> motion_inv (handleDragStart s cx cy)"
  by (simp add: handleDragStart_def motion_inv_def radius_def)

lemma handleDragMove_inv: "motion_inv s \<Longrightarrow> motion_inv (handleDragMove s cx cy w h)"
proof (cases "isDragging s")
  case False
  then show "motion_inv s \<Longrightarrow> ?thesis" by (simp add: handleDragMove_def)
next
  case True
  assume inv: "motion_inv s"
  have "radius (handleDragMove s cx cy w h) \<le> 0.48"
    using True clampToDisk_radius [of "0.48" "(dragStartPosX s + (cx - dragStartX s) / w,
          dragStartPosY s + (cy - dragStartY s) / h)"]
    by (simp add: handleDragMove_def Let_def radius_def)
  then show ?thesis
    using inv True by (simp add: handleDragMove_def Let_def motion_inv_def)
qed

lemma handleDragEnd_inv: "motion_inv s \<Longrightarrow> motion_inv (handleDragEnd s)"
  by (simp add: handleDragEnd_def Let_def motion_inv_def radius_def power2_eq_square)

lemma lock_unlock_inv:
  "motion_inv s \<Longrightarrow> motion_inv (lockToCenter s)"
  "motion_inv s \<Longrightarrow> motion_inv (unlockFromCenter s)"
  "motion_inv s \<Longrightarrow> motion_inv (setTrendDirection s a)"
  by (simp_all add: lockToCenter_def unlockFromCenter_def setTrendDirection_def
      motion_inv_def radius_def)

lemma step_inv: "motion_inv s \<Longrightarrow> motion_inv (step s e)"
  by (cases e)
    (simp_all add: animate_inv handleDragStart_inv handleDragMove_inv handleDragEnd_inv
      lock_unlock_inv)

lemma run_inv: "motion_inv s \<Longrightarrow> motion_inv (run s es)"
  by (induction es arbitrary: s) (simp_all add: step_inv)

lemma GlucoseBlob_inv: "motion_inv (GlucoseBlob table ms mo tr rand)"
  unfolding GlucoseBlob_def
  by (rule animate_inv) (simp add: motion_inv_def radius_def)


lemma updatePosition_frame:
  "noise (updatePosition s t) = noise s"
  "movementSpeed (updatePosition s t) = movementSpeed s"
  "morphSpeed (updatePosition s t) = morphSpeed s"
  "time (updatePosition s t) = time s"
  "trendAngle (updatePosition s t) = trendAngle s"
  "centerLock (updatePosition s t) = centerLock s"
  "centerLockEaseStart (updatePosition s t) = centerLockEaseStart s"
  "oscillationPhaseOffset (updatePosition s t) = oscillationPhaseOffset s"
  "isDragging (updatePosition s t) = isDragging s"
  "hasMoved (updatePosition s t) = hasMoved s"
  "edgeReturnStart (updatePosition s t) = edgeReturnStart s"
  "edgeReturnStartX (updatePosition s t) = edgeReturnStartX s"
  "edgeReturnStartY (updatePosition s t) = edgeReturnStartY s"
  by (simp_all add: updatePosition_def edgeReturnStep_def Let_def split_beta)

lemma animate_frame:
  "noise (animate s) = noise s"
  "movementSpeed (animate s) = movementSpeed s"
  "morphSpeed (animate s) = morphSpeed s"
  "time (animate s) = time s + 16"
  "trendAngle (animate s) = trendAngle s"
  "centerLock (animate s) = centerLock s"
  "centerLockEaseStart (animate s) = centerLockEaseStart s"
  "oscillationPhaseOffset (animate s) = oscillationPhaseOffset s"
  "isDragging (animate s) = isDragging s"
  "hasMoved (animate s) = hasMoved s"
  "edgeReturnStart (animate s) = edgeReturnStart s"
  "edgeReturnStartX (animate s) = edgeReturnStartX s"
  "edgeReturnStartY (animate s) = edgeReturnStartY s"
  by (simp_all add: animate_def Let_def updatePosition_frame)

lemma animate_dragging: "isDragging s \<Longrightarrow> animate s = s\<lparr>time := time s + 16\<rparr>"
  by (simp add: animate_def Let_def updatePosition_def)

lemma animate_locked:
  "\<not> isDragging s \<Longrightarrow> centerLock s \<Longrightarrow>
     animate s = s\<lparr>time := time s + 16, posX := centerX, posY := centerY\<rparr>"
  by (simp add: animate_def Let_def updatePosition_def)

text \<open>
  Claim C1. From the constructed blob, after every prefix of every sequence of frames, drag
  events, lock and unlock calls and trend changes, the position is at distance at most
  \<open>0.48\<close> from the centre \<open>(0.5, 0.5)\<close>. A prefix may end with a drag move, whatever its
  pointer delta: the drag handler clamps its own result. Drag moves are taken with a
  container of positive width and height.
\<close>

theorem position_within_max_radius:
  assumes "list_all event_ok evs" and "k \<le> length evs"
  shows "radius (run (GlucoseBlob table optMovementSpeed optMorphSpeed optInitialTrend rand)
                     (take k evs)) \<le> 0.48"
  using run_inv [OF GlucoseBlob_inv] by (simp add: motion_inv_def)

theorem position_within_max_radius_witness:
  "list_all event_ok [DragStart 100 100, DragMove 100000 100 252 252, Tick, DragEnd, Tick]
   \<and> radius (run (GlucoseBlob (SimplexNoise (\<lambda>i. 0)) None None None 0)
                  (take 2 [DragStart 100 100, DragMove 100000 100 252 252, Tick, DragEnd, Tick]))
       \<le> 0.48"
proof -
  let ?evs = "[DragStart 100 100, DragMove 100000 100 252 252, Tick, DragEnd, Tick]"
  have ok: "list_all event_ok ?evs" by simp
  have k: "2 \<le> length ?evs" by simp
  show ?thesis
    using ok position_within_max_radius [OF ok k] by blast
qed

section \<open>Frames in a row, and the return from the edge\<close>

lemma run_append: "run s (xs @ ys) = run (run s xs) ys"
  by (induction xs arbitrary: s) simp_all

lemma run_ticks_Suc: "run s (replicate (Suc n) Tick) = animate (run s (replicate n Tick))"
  using run_append [of s "replicate n Tick" "[Tick]"] by (simp add: replicate_append_same)

lemma run_ticks_frame:
  "noise (run s (replicate n Tick)) = noise s"
  "movementSpeed (run s (replicate n Tick)) = movementSpeed s"
  "time (run s (replicate n Tick)) = time s + 16 * real n"
  "trendAngle (run s (replicate n Tick)) = trendAngle s"
  "centerLock (run s (replicate n Tick)) = centerLock s"
  "centerLockEaseStart (run s (replicate n Tick)) = centerLockEaseStart s"
  "oscillationPhaseOffset (run s (replicate n Tick)) = oscillationPhaseOffset s"
  "isDragging (run s (replicate n Tick)) = isDragging s"
  "edgeReturnStart (run s (replicate n Tick)) = edgeReturnStart s"
  "edgeReturnStartX (run s (replicate n Tick)) = edgeReturnStartX s"
  "edgeReturnStartY (run s (replicate n Tick)) = edgeReturnStartY s"
  by (induction n) (simp_all del: replicate_Suc add: run_ticks_Suc animate_frame)


lemma clampToDisk_inside:
  assumes "0 \<le> r" "(fst p - centerX)\<^sup>2 + (snd p - centerY)\<^sup>2 \<le> r\<^sup>2"
  shows "clampToDisk r p = p"
proof -
  have "sqrt ((fst p - centerX)\<^sup>2 + (snd p - centerY)\<^sup>2) \<le> r"
    using assms by (simp add: sqrt_sq_le_iff)
  then show ?thesis
    by (simp add: clampToDisk_def Let_def power2_eq_square)
qed


















lemma GlucoseBlob_fields:
  "\<not> isDragging (GlucoseBlob T ms mo tr rand)"
  "\<not> centerLock (GlucoseBlob T ms mo tr rand)"
  "time (GlucoseBlob T ms mo tr rand) = rand * 1000 + 16"
  "noise (GlucoseBlob T ms mo tr rand) = T"
  "movementSpeed (GlucoseBlob T ms mo tr rand) = (case ms of Some v \<Rightarrow> v | None \<Rightarrow> 0.00015)"
  "trendAngle (GlucoseBlob T ms mo tr rand)
     = (case tr of Some v \<Rightarrow> (if v = 0 then 45 else v) | None \<Rightarrow> 45)"
  by (simp_all add: GlucoseBlob_def animate_frame)










section \<open>Centre lock and morph intensity\<close>

text \<open>
  Claim C6 at a drag that is in progress when the lock is engaged: \<open>lockToCenter\<close> leaves
  \<open>isDragging\<close> set, \<open>handleDragMove\<close> does not look at the lock, and \<open>updatePosition\<close>
  returns for a drag before it looks at the lock. After the events of \<open>dragThenLock\<close> the
  blob is locked and its position is \<open>(0.7, 0.5)\<close>, not the centre.
\<close>

theorem drag_in_progress_escapes_lock:
  "centerLock (run defaultBlob dragThenLock)
   \<and> posX (run defaultBlob dragThenLock) = 7 / 10
   \<and> posY (run defaultBlob dragThenLock) = 1 / 2"
proof -
  define s1 where "s1 = lockToCenter defaultBlob"
  define s2 where "s2 = animate s1"
  define s3 where "s3 = unlockFromCenter s2"
  define s4 where "s4 = handleDragStart s3 100 100"
  define s5 where "s5 = lockToCenter s4"
  define s6 where "s6 = handleDragMove s5 150 100 250 250"
  have f0: "\<not> isDragging defaultBlob" "\<not> centerLock defaultBlob"
    by (simp_all add: defaultBlob_def GlucoseBlob_fields)
  have f1: "\<not> isDragging s1" "centerLock s1"
    using f0 by (simp_all add: s1_def lockToCenter_def)
  have e2: "s2 = s1\<lparr>time := time s1 + 16, posX := centerX, posY := centerY\<rparr>"
    unfolding s2_def by (rule animate_locked [OF f1])
  have f3: "\<not> isDragging s3" "\<not> centerLock s3" "posX s3 = 1 / 2" "posY s3 = 1 / 2"
    using f1 by (simp_all add: s3_def unlockFromCenter_def e2)
  have f5: "isDragging s5" "centerLock s5" "dragStartPosX s5 = 1 / 2" "dragStartPosY s5 = 1 / 2"
    "dragStartX s5 = 100" "dragStartY s5 = 100"
    using f3 by (simp_all add: s5_def s4_def lockToCenter_def handleDragStart_def)
  have p: "clampToDisk 0.48 (dragStartPosX s5 + (150 - dragStartX s5) / 250,
                            dragStartPosY s5 + (100 - dragStartY s5) / 250) = (7 / 10, 1 / 2)"
  proof -
    have "clampToDisk 0.48 (7 / 10, 1 / 2) = (7 / 10, 1 / 2)"
      by (rule clampToDisk_inside) (simp_all add: power2_eq_square)
    then show ?thesis by (simp add: f5)
  qed
  have f6: "isDragging s6" "centerLock s6" "posX s6 = 7 / 10" "posY s6 = 1 / 2"
    unfolding s6_def handleDragMove_def Let_def p using f5 by simp_all
  have "run defaultBlob dragThenLock = animate s6"
    by (simp add: dragThenLock_def s6_def s5_def s4_def s3_def s2_def s1_def)
  then show ?thesis
    using f6 by (simp add: animate_dragging [OF f6(1)])
qed

text \<open>
  With no drag in progress the lock does hold: a frame puts the blob at the centre, drag
  events change nothing, and every event but \<open>unlockFromCenter\<close> keeps the blob locked and
  not dragged.
\<close>

lemma locked_without_drag:
  assumes "centerLock s" "\<not> isDragging s"
  shows "posX (step s Tick) = centerX \<and> posY (step s Tick) = centerY"
    and "step s (DragStart clientX clientY) = s"
    and "step s (DragMove clientX clientY width height) = s"
    and "step s DragEnd = s"
    and "e \<noteq> UnlockFromCenter \<Longrightarrow> centerLock (step s e) \<and> \<not> isDragging (step s e)"
  using assms
  by (cases e; simp add: animate_locked handleDragStart_def handleDragMove_def handleDragEnd_def
      lockToCenter_def setTrendDirection_def)+

lemma animate_easeOut_flag:
  "centerLockEaseOut s \<Longrightarrow>
     centerLockEaseOut (animate s) \<or> centerLockEaseDuration \<le> time s + 16 - centerLockEaseStart s"
  by (auto simp add: animate_def updatePosition_def edgeReturnStep_def Let_def split_beta
      centerLockEaseDuration_def)

lemma unlock_run_flag:
  "centerLockEaseOut (run (unlockFromCenter s) (replicate n Tick))
     \<or> centerLockEaseDuration \<le> 16 * real n"
proof (induction n)
  case 0
  show ?case by (simp add: unlockFromCenter_def)
next
  case (Suc n)
  define u where "u = run (unlockFromCenter s) (replicate n Tick)"
  have f: "time u = time s + 16 * real n" "centerLockEaseStart u = time s"
    by (simp_all add: u_def run_ticks_frame unlockFromCenter_def)
  show ?case
  proof (cases "centerLockEaseOut u")
    case True
    from animate_easeOut_flag [OF True] show ?thesis
      unfolding run_ticks_Suc u_def [symmetric] by (auto simp add: f algebra_simps)
  next
    case False
    with Suc have "centerLockEaseDuration \<le> 16 * real n" by (simp add: u_def)
    then show ?thesis by (simp add: algebra_simps)
  qed
qed

lemma frameMorphIntensity_after_unlock:
  "frameMorphIntensity (run (unlockFromCenter s) (replicate n Tick))
     = 0.1 + min 1 (16 * (real n + 1) / 800) * 0.9"
proof -
  define u where "u = run (unlockFromCenter s) (replicate n Tick)"
  have f: "time u = time s + 16 * real n" "centerLockEaseStart u = time s" "\<not> centerLock u"
    by (simp_all add: u_def run_ticks_frame unlockFromCenter_def)
  have e: "time u + 16 - centerLockEaseStart u = 16 * (real n + 1)"
    by (simp add: f algebra_simps)
  show ?thesis
  proof (cases "centerLockEaseOut u")
    case True
    then show ?thesis
      unfolding u_def [symmetric]
      by (simp add: frameMorphIntensity_def morphIntensity_def Let_def f(3) e
          centerLockEaseDuration_def)
  next
    case False
    with unlock_run_flag [of s n] have "800 \<le> 16 * real n"
      by (simp add: u_def centerLockEaseDuration_def)
    then have "min 1 (16 * (real n + 1) / 800) = 1" by simp
    with False show ?thesis
      unfolding u_def [symmetric]
      by (simp add: frameMorphIntensity_def morphIntensity_def Let_def f(3))
  qed
qed

text \<open>
  Claim C8, as the code has it. While the blob is locked the morph intensity is \<open>0.1\<close>.
  In the frame \<open>n + 1\<close> after \<open>unlockFromCenter\<close> (frames only in between) it is
  \<open>0.1 + 0.9 * min(1, elapsed / 800)\<close> with \<open>elapsed = 16 * (n + 1)\<close>: a linear ramp in the
  elapsed time. From the 50th frame on, 800 ms after the unlock, it is exactly \<open>1\<close>.
\<close>

theorem morphIntensity_linear_ramp:
  "morphIntensity (lockToCenter s) t = 0.1
   \<and> frameMorphIntensity (run (unlockFromCenter s) (replicate n Tick))
       = 0.1 + min 1 (16 * (real n + 1) / centerLockEaseDuration) * 0.9
   \<and> frameMorphIntensity (run (unlockFromCenter s) (replicate (49 + k) Tick)) = 1"
proof -
  have "min 1 (16 * (real (49 + k) + 1) / 800) = 1" by simp
  then have "frameMorphIntensity (run (unlockFromCenter s) (replicate (49 + k) Tick)) = 1"
    unfolding frameMorphIntensity_after_unlock by simp
  then show ?thesis
    by (simp add: frameMorphIntensity_after_unlock centerLockEaseDuration_def
        morphIntensity_def lockToCenter_def)
qed

text \<open>
  Claim C8 as stated fails: 400 ms after the unlock the code's morph intensity is
  \<open>0.55\<close>, the cubic ease-out of the claim would give \<open>0.8875\<close>.
\<close>

theorem morphIntensity_not_cubic:
  "frameMorphIntensity (run (unlockFromCenter defaultBlob) (replicate 24 Tick)) = 11 / 20
   \<and> claimedMorphIntensity 400 = 71 / 80"
  by (simp add: frameMorphIntensity_after_unlock claimedMorphIntensity_def easeOutCubic_def
      power3_eq_cube)

section \<open>The colour mappings\<close>

lemma Math_round_of_int: "Math_round (of_int n) = n"
  unfolding Math_round_def by linarith

lemma Math_round_mono: "x \<le> y \<Longrightarrow> Math_round x \<le> Math_round y"
  unfolding Math_round_def by (intro floor_mono) simp

lemma Math_round_close: "\<bar>of_int (Math_round x) - x\<bar> \<le> 1 / 2"
  unfolding Math_round_def by linarith

lemma blendColors_channels:
  "red (blendColors a b t) = channel (red a) (red b) t"
  "green (blendColors a b t) = channel (green a) (green b) t"
  "blue (blendColors a b t) = channel (blue a) (blue b) t"
  by (simp_all add: blendColors_def channel_def)

lemma channel_ends: "channel c1 c2 0 = c1" "channel c1 c2 1 = c2"
  using Math_round_of_int [of c1] Math_round_of_int [of c2] by (simp_all add: channel_def)

lemma channel_up: "c1 \<le> c2 \<Longrightarrow> t1 \<le> t2 \<Longrightarrow> channel c1 c2 t1 \<le> channel c1 c2 t2"
  unfolding channel_def by (intro Math_round_mono add_left_mono mult_left_mono) simp_all

lemma channel_down: "c2 \<le> c1 \<Longrightarrow> t1 \<le> t2 \<Longrightarrow> channel c1 c2 t2 \<le> channel c1 c2 t1"
  unfolding channel_def by (intro Math_round_mono add_left_mono mult_left_mono_neg) simp_all

lemma channel_close:
  "\<bar>real_of_int (channel c1 c2 t1) - real_of_int (channel c1 c2 t2)\<bar>
     \<le> \<bar>real_of_int c2 - real_of_int c1\<bar> * \<bar>t1 - t2\<bar> + 1"
proof -
  define x where "x = real_of_int c1 + (real_of_int c2 - real_of_int c1) * t1"
  define y where "y = real_of_int c1 + (real_of_int c2 - real_of_int c1) * t2"
  have "\<bar>x - y\<bar> = \<bar>(real_of_int c2 - real_of_int c1) * (t1 - t2)\<bar>"
    by (simp add: x_def y_def algebra_simps)
  then have d: "\<bar>x - y\<bar> = \<bar>real_of_int c2 - real_of_int c1\<bar> * \<bar>t1 - t2\<bar>"
    by (simp add: abs_mult)
  have "\<bar>real_of_int (Math_round x) - real_of_int (Math_round y)\<bar> \<le> \<bar>x - y\<bar> + 1"
    using Math_round_close [of x] Math_round_close [of y] by linarith
  then show ?thesis
    unfolding d by (simp add: channel_def x_def y_def)
qed

lemma blendColors_ends: "blendColors a b 0 = a" "blendColors a b 1 = b"
  using Math_round_of_int by (simp_all add: blendColors_def)

lemma slider_bands:
  "19 / 2 \<le> g \<Longrightarrow> g < 10 \<Longrightarrow>
     slider_getColorForGlucose g = blendColors WARNING DANGER ((g - 19 / 2) / (1 / 2))"
  "4 < g \<Longrightarrow> g < 9 / 2 \<Longrightarrow>
     slider_getColorForGlucose g = blendColors WARNING DANGER ((9 / 2 - g) / (1 / 2))"
  by (simp_all add: slider_getColorForGlucose_def)

lemma slider_edges:
  "slider_getColorForGlucose (19 / 2) = WARNING"
  "slider_getColorForGlucose 10 = DANGER"
  "slider_getColorForGlucose 4 = DANGER"
  "slider_getColorForGlucose (9 / 2) = SAFE"
  using blendColors_ends(1) [of WARNING DANGER]
  by (simp_all add: slider_getColorForGlucose_def)

lemma slider_low_band_inside:
  "slider_getColorForGlucose (4499 / 1000) = WARNING"
  "slider_getColorForGlucose (17 / 4) = \<lparr>red = 255, green = 142, blue = 34\<rparr>"
  by (simp_all add: slider_getColorForGlucose_def blendColors_def Math_round_def
      WARNING_def DANGER_def)

text \<open>
  Claim C2, as the graph slider's mapping has it. \<open>blendColors\<close> returns the first colour
  at fraction \<open>0\<close> and the second at \<open>1\<close>; each channel moves monotonically from the first
  colour's value to the second's as the fraction grows (not strictly: the channels are
  rounded to integers), and two fractions give channel values no further apart than the
  unrounded interpolation plus one rounding step. The band from \<open>9.5\<close> to \<open>10\<close> blends
  yellow to red with fraction \<open>(g - 9.5) / 0.5\<close> and the band from \<open>4.0\<close> to \<open>4.5\<close> blends
  yellow to red with fraction \<open>(4.5 - g) / 0.5\<close>; the colour is yellow at \<open>9.5\<close> and red
  at \<open>10\<close> and at \<open>4.0\<close>, while at \<open>4.5\<close> it is the green of the safe zone.
\<close>

theorem colour_blend_bands:
  "blendColors c1 c2 0 = c1 \<and> blendColors c1 c2 1 = c2
   \<and> (t1 \<le> t2 \<longrightarrow>
         (red c1 \<le> red c2 \<longrightarrow> red (blendColors c1 c2 t1) \<le> red (blendColors c1 c2 t2))
       \<and> (red c2 \<le> red c1 \<longrightarrow> red (blendColors c1 c2 t2) \<le> red (blendColors c1 c2 t1))
       \<and> (green c1 \<le> green c2 \<longrightarrow> green (blendColors c1 c2 t1) \<le> green (blendColors c1 c2 t2))
       \<and> (green c2 \<le> green c1 \<longrightarrow> green (blendColors c1 c2 t2) \<le> green (blendColors c1 c2 t1))
       \<and> (blue c1 \<le> blue c2 \<longrightarrow> blue (blendColors c1 c2 t1) \<le> blue (blendColors c1 c2 t2))
       \<and> (blue c2 \<le> blue c1 \<longrightarrow> blue (blendColors c1 c2 t2) \<le> blue (blendColors c1 c2 t1)))
   \<and> \<bar>real_of_int (red (blendColors c1 c2 t1)) - real_of_int (red (blendColors c1 c2 t2))\<bar>
        \<le> \<bar>real_of_int (red c2) - real_of_int (red c1)\<bar> * \<bar>t1 - t2\<bar> + 1
   \<and> \<bar>real_of_int (green (blendColors c1 c2 t1)) - real_of_int (green (blendColors c1 c2 t2))\<bar>
        \<le> \<bar>real_of_int (green c2) - real_of_int (green c1)\<bar> * \<bar>t1 - t2\<bar> + 1
   \<and> \<bar>real_of_int (blue (blendColors c1 c2 t1)) - real_of_int (blue (blendColors c1 c2 t2))\<bar>
        \<le> \<bar>real_of_int (blue c2) - real_of_int (blue c1)\<bar> * \<bar>t1 - t2\<bar> + 1
   \<and> (19 / 2 \<le> gh \<and> gh < 10 \<longrightarrow>
         slider_getColorForGlucose gh = blendColors WARNING DANGER ((gh - 19 / 2) / (1 / 2)))
   \<and> (4 < gl \<and> gl < 9 / 2 \<longrightarrow>
         slider_getColorForGlucose gl = blendColors WARNING DANGER ((9 / 2 - gl) / (1 / 2)))
   \<and> slider_getColorForGlucose (19 / 2) = WARNING
   \<and> slider_getColorForGlucose 10 = DANGER
   \<and> slider_getColorForGlucose 4 = DANGER
   \<and> slider_getColorForGlucose (9 / 2) = SAFE"
proof -
  have mono: "red c1 \<le> red c2 \<longrightarrow> red (blendColors c1 c2 t1) \<le> red (blendColors c1 c2 t2)"
    "red c2 \<le> red c1 \<longrightarrow> red (blendColors c1 c2 t2) \<le> red (blendColors c1 c2 t1)"
    "green c1 \<le> green c2 \<longrightarrow> green (blendColors c1 c2 t1) \<le> green (blendColors c1 c2 t2)"
    "green c2 \<le> green c1 \<longrightarrow> green (blendColors c1 c2 t2) \<le> green (blendColors c1 c2 t1)"
    "blue c1 \<le> blue c2 \<longrightarrow> blue (blendColors c1 c2 t1) \<le> blue (blendColors c1 c2 t2)"
    "blue c2 \<le> blue c1 \<longrightarrow> blue (blendColors c1 c2 t2) \<le> blue (blendColors c1 c2 t1)"
    if "t1 \<le> t2"
    using that by (simp_all add: blendColors_channels channel_up channel_down)
  have close:
    "\<bar>real_of_int (red (blendColors c1 c2 t1)) - real_of_int (red (blendColors c1 c2 t2))\<bar>
        \<le> \<bar>real_of_int (red c2) - real_of_int (red c1)\<bar> * \<bar>t1 - t2\<bar> + 1"
    "\<bar>real_of_int (green (blendColors c1 c2 t1)) - real_of_int (green (blendColors c1 c2 t2))\<bar>
        \<le> \<bar>real_of_int (green c2) - real_of_int (green c1)\<bar> * \<bar>t1 - t2\<bar> + 1"
    "\<bar>real_of_int (blue (blendColors c1 c2 t1)) - real_of_int (blue (blendColors c1 c2 t2))\<bar>
        \<le> \<bar>real_of_int (blue c2) - real_of_int (blue c1)\<bar> * \<bar>t1 - t2\<bar> + 1"
    unfolding blendColors_channels by (rule channel_close)+
  show ?thesis
    by (intro conjI impI blendColors_ends mono close slider_edges)
      (simp_all add: slider_bands)
qed

theorem colour_blend_bands_witness:
  "green (blendColors WARNING DANGER 1) \<le> green (blendColors WARNING DANGER 0)
   \<and> blue (blendColors WARNING DANGER 0) \<le> blue (blendColors WARNING DANGER 1)
   \<and> slider_getColorForGlucose (39 / 4) = blendColors WARNING DANGER (1 / 2)
   \<and> slider_getColorForGlucose (17 / 4) = blendColors WARNING DANGER (1 / 2)"
proof -
  have g: "green DANGER \<le> green WARNING" and b: "blue WARNING \<le> blue DANGER"
    by (simp_all add: WARNING_def DANGER_def)
  have t: "(0 :: real) \<le> 1" by simp
  from colour_blend_bands [of WARNING DANGER 0 1 "39 / 4" "17 / 4"] g b t
  show ?thesis by simp
qed

text \<open>
  Claim C2 as stated fails at the upper edge of the slider's low band. Inside the band
  the colour is a blend of yellow and red (at \<open>4.25\<close> half of each), close to \<open>4.5\<close> it is
  yellow (at \<open>4.499\<close>), and at \<open>4.5\<close> it is the green of the safe zone: a step at the band's
  edge, and a blend that does not run between the colours of the two zones next to the
  band, which are red and green.
\<close>

theorem colour_seams:
  "slider_getColorForGlucose (17 / 4) = \<lparr>red = 255, green = 142, blue = 34\<rparr>
   \<and> slider_getColorForGlucose (4499 / 1000) = WARNING
   \<and> slider_getColorForGlucose (9 / 2) = SAFE"
  using slider_low_band_inside slider_edges(4) by simp

section \<open>The value mapping, the sampler and the segmenter\<close>

text \<open>
  Claim C4. The mapping between \<open>y\<close> coordinates and glucose values round-trips in both
  directions: \<open>glucoseToY(yToGlucose(y)) = y\<close> for every \<open>y\<close> and
  \<open>yToGlucose(glucoseToY(v)) = v\<close> for every glucose value \<open>v\<close>, whatever the upper
  boundary line. Over the reals the equalities are exact.
\<close>

theorem glucose_y_round_trip:
  "glucoseToY gs (yToGlucose gs y) = y \<and> yToGlucose gs (glucoseToY gs v) = v"
  by (simp add: glucoseToY_def yToGlucose_def diff_divide_distrib)

lemma getYForX_eq:
  assumes "pathSamples gs \<noteq> []"
  shows "getYForX gs x =
           Some (case findBracket (pathSamples gs) x of
                   Some (a, b) \<Rightarrow> interpolate a b x
                 | None \<Rightarrow> interpolate (hd (pathSamples gs)) (last (pathSamples gs)) x)"
  using assms
  by (cases "pathSamples gs")
    (simp_all add: getYForX_def interpolate_def Let_def split: option.splits prod.splits)

lemma findBracket_Some:
  "findBracket xs x = Some (a, b) \<Longrightarrow>
     \<exists>i. Suc i < length xs \<and> a = xs ! i \<and> b = xs ! Suc i \<and> pt_x a \<le> x \<and> x \<le> pt_x b"
proof (induction xs x rule: findBracket.induct)
  case (1 p q rest x)
  show ?case
  proof (cases "pt_x p \<le> x \<and> pt_x q \<ge> x")
    case True
    with "1.prems" have "a = p" "b = q" by simp_all
    with True show ?thesis by (intro exI [of _ 0]) simp
  next
    case False
    with "1.prems" have "findBracket (q # rest) x = Some (a, b)" by simp
    with "1.IH" False obtain i where
      "Suc i < length (q # rest)" "a = (q # rest) ! i" "b = (q # rest) ! Suc i"
      "pt_x a \<le> x" "x \<le> pt_x b"
      by blast
    then show ?thesis by (intro exI [of _ "Suc i"]) simp
  qed
qed simp_all

lemma findBracket_inside:
  "sorted (map pt_x xs) \<Longrightarrow> 2 \<le> length xs \<Longrightarrow> pt_x (hd xs) \<le> x \<Longrightarrow> x \<le> pt_x (last xs)
     \<Longrightarrow> \<exists>a b. findBracket xs x = Some (a, b)"
proof (induction xs x rule: findBracket.induct)
  case (1 p q rest x)
  show ?case
  proof (cases "pt_x p \<le> x \<and> pt_x q \<ge> x")
    case True
    then show ?thesis by simp
  next
    case False
    with "1.prems" have q: "pt_x q < x" by simp
    have "rest \<noteq> []"
    proof
      assume "rest = []"
      with "1.prems" q show False by simp
    qed
    then have "2 \<le> length (q # rest)" by (cases rest) simp_all
    moreover have "sorted (map pt_x (q # rest))" using "1.prems" by simp
    moreover have "pt_x (hd (q # rest)) \<le> x" using q by simp
    moreover have "x \<le> pt_x (last (q # rest))" using "1.prems" by simp
    ultimately have "\<exists>a b. findBracket (q # rest) x = Some (a, b)"
      using "1.IH" False by blast
    with False show ?thesis by simp
  qed
qed simp_all

lemma findBracket_first:
  "2 \<le> length xs \<Longrightarrow> sorted (map pt_x xs) \<Longrightarrow> findBracket xs (pt_x (hd xs)) = Some (hd xs, hd (tl xs))"
  by (cases xs; cases "tl xs") auto

lemma sorted_hd_le_last:
  "sorted (map f xs) \<Longrightarrow> xs \<noteq> [] \<Longrightarrow> (f (hd xs) :: real) \<le> f (last xs)"
proof (cases xs)
  case (Cons y ys)
  assume "sorted (map f xs)"
  with Cons have "\<forall>z\<in>set ys. f y \<le> f z" by simp
  then show ?thesis
    using Cons by (cases "ys = []") simp_all
qed simp

lemma findBracket_outside:
  "sorted (map pt_x xs) \<Longrightarrow> xs \<noteq> [] \<Longrightarrow> x < pt_x (hd xs) \<or> pt_x (last xs) < x \<Longrightarrow> findBracket xs x = None"
proof (induction xs x rule: findBracket.induct)
  case (1 p q rest x)
  from "1.prems" have pq: "pt_x p \<le> pt_x q" by simp
  have ql: "pt_x q \<le> pt_x (last (q # rest))"
    using sorted_hd_le_last [of pt_x "q # rest"] "1.prems"(1) by simp
  have l: "last (p # q # rest) = last (q # rest)" by simp
  from "1.prems"(3) have out: "x < pt_x p \<or> pt_x (last (q # rest)) < x"
    unfolding l by simp
  have no: "\<not> (pt_x p \<le> x \<and> pt_x q \<ge> x)"
    using out pq ql by linarith
  have "x < pt_x (hd (q # rest)) \<or> pt_x (last (q # rest)) < x"
    using out pq by auto
  moreover have "sorted (map pt_x (q # rest))" using "1.prems" by simp
  ultimately have "findBracket (q # rest) x = None"
    using "1.IH" no by blast
  with no show ?case by simp
qed simp_all

lemma interpolate_between:
  assumes "pt_x a \<le> x" "x \<le> pt_x b"
  shows "min (pt_y a) (pt_y b) \<le> interpolate a b x \<and> interpolate a b x \<le> max (pt_y a) (pt_y b)"
proof (cases "pt_x b = pt_x a")
  case True
  then show ?thesis by (simp add: interpolate_def)
next
  case False
  with assms have lt: "pt_x a < pt_x b" by linarith
  define t where "t = (x - pt_x a) / (pt_x b - pt_x a)"
  have t: "0 \<le> t" "t \<le> 1"
    using assms lt by (simp_all add: t_def)
  have "interpolate a b x = pt_y a + t * (pt_y b - pt_y a)"
    using False by (simp add: interpolate_def t_def)
  then have e: "interpolate a b x = (1 - t) * pt_y a + t * pt_y b"
    by (simp add: algebra_simps)
  have lo: "(1 - t) * min (pt_y a) (pt_y b) + t * min (pt_y a) (pt_y b)
              \<le> (1 - t) * pt_y a + t * pt_y b"
    using t by (intro add_mono mult_left_mono) simp_all
  have hi: "(1 - t) * pt_y a + t * pt_y b
              \<le> (1 - t) * max (pt_y a) (pt_y b) + t * max (pt_y a) (pt_y b)"
    using t by (intro add_mono mult_left_mono) simp_all
  have "(1 - t) * min (pt_y a) (pt_y b) + t * min (pt_y a) (pt_y b) = min (pt_y a) (pt_y b)"
    "(1 - t) * max (pt_y a) (pt_y b) + t * max (pt_y a) (pt_y b) = max (pt_y a) (pt_y b)"
    by (simp_all add: algebra_simps)
  with lo hi e show ?thesis by simp
qed


lemma findBracket_members:
  "findBracket xs x = Some (a, b) \<Longrightarrow> a \<in> set xs \<and> b \<in> set xs \<and> pt_x a \<le> x \<and> x \<le> pt_x b"
  using findBracket_Some [of xs x a b] by (auto simp: nth_mem Suc_lessD)

lemma sorted_le_last:
  "sorted (map f xs) \<Longrightarrow> p \<in> set xs \<Longrightarrow> (f p :: real) \<le> f (last xs)"
proof (induction xs)
  case (Cons y ys)
  show ?case
  proof (cases "ys = []")
    case True
    with Cons.prems show ?thesis by simp
  next
    case False
    show ?thesis
    proof (cases "p = y")
      case True
      have "f y \<le> f (last ys)"
        using Cons.prems(1) False last_in_set [of ys] by simp
      with True False show ?thesis by simp
    next
      case neq: False
      with Cons.prems have "p \<in> set ys" by simp
      with Cons.IH Cons.prems(1) have "f p \<le> f (last ys)" by simp
      with False show ?thesis by simp
    qed
  qed
qed simp

text \<open>
  Claim C7, as the code has it. For samples sorted by \<open>x\<close> and a query \<open>x\<close> inside the
  sampled domain, \<open>getYForX\<close> interpolates linearly between an adjacent pair of samples
  around \<open>x\<close>, so the result lies between their two \<open>y\<close> values. At the first sample's \<open>x\<close>
  it returns the first sample's \<open>y\<close>; at the last sample's \<open>x\<close> it returns the \<open>y\<close> of a
  sample at that \<open>x\<close>, the last sample's when the \<open>x\<close> values are distinct. Strictly
  outside the sampled domain no pair is found and the result is the value at \<open>x\<close> of the
  line through the first and the last sample: the code extrapolates.
\<close>

theorem getYForX_inside_and_outside:
  assumes ne: "pathSamples gs \<noteq> []" and srt: "sorted (map pt_x (pathSamples gs))"
  shows
    "(pt_x (hd (pathSamples gs)) \<le> x \<and> x \<le> pt_x (last (pathSamples gs))
        \<and> 2 \<le> length (pathSamples gs) \<longrightarrow>
      (\<exists>i. Suc i < length (pathSamples gs)
          \<and> pt_x (pathSamples gs ! i) \<le> x \<and> x \<le> pt_x (pathSamples gs ! Suc i)
          \<and> getYForX gs x = Some (interpolate (pathSamples gs ! i) (pathSamples gs ! Suc i) x)
          \<and> min (pt_y (pathSamples gs ! i)) (pt_y (pathSamples gs ! Suc i))
               \<le> interpolate (pathSamples gs ! i) (pathSamples gs ! Suc i) x
          \<and> interpolate (pathSamples gs ! i) (pathSamples gs ! Suc i) x
               \<le> max (pt_y (pathSamples gs ! i)) (pt_y (pathSamples gs ! Suc i))))
     \<and> getYForX gs (pt_x (hd (pathSamples gs))) = Some (pt_y (hd (pathSamples gs)))
     \<and> (\<exists>p. p \<in> set (pathSamples gs) \<and> pt_x p = pt_x (last (pathSamples gs))
            \<and> getYForX gs (pt_x (last (pathSamples gs))) = Some (pt_y p))
     \<and> (distinct (map pt_x (pathSamples gs)) \<longrightarrow>
          getYForX gs (pt_x (last (pathSamples gs))) = Some (pt_y (last (pathSamples gs))))
     \<and> (x < pt_x (hd (pathSamples gs)) \<or> pt_x (last (pathSamples gs)) < x \<longrightarrow>
          getYForX gs x = Some (interpolate (hd (pathSamples gs)) (last (pathSamples gs)) x))"
proof -
  let ?xs = "pathSamples gs"
  have inside: "\<exists>i. Suc i < length ?xs \<and> pt_x (?xs ! i) \<le> x \<and> x \<le> pt_x (?xs ! Suc i)
          \<and> getYForX gs x = Some (interpolate (?xs ! i) (?xs ! Suc i) x)
          \<and> min (pt_y (?xs ! i)) (pt_y (?xs ! Suc i)) \<le> interpolate (?xs ! i) (?xs ! Suc i) x
          \<and> interpolate (?xs ! i) (?xs ! Suc i) x \<le> max (pt_y (?xs ! i)) (pt_y (?xs ! Suc i))"
    if dom: "pt_x (hd ?xs) \<le> x" "x \<le> pt_x (last ?xs)" "2 \<le> length ?xs"
  proof -
    from findBracket_inside [OF srt dom(3) dom(1) dom(2)]
    obtain a b where br: "findBracket ?xs x = Some (a, b)" by blast
    from findBracket_Some [OF br] obtain i where
      i: "Suc i < length ?xs" "a = ?xs ! i" "b = ?xs ! Suc i" "pt_x a \<le> x" "x \<le> pt_x b"
      by blast
    have "getYForX gs x = Some (interpolate a b x)"
      using getYForX_eq [OF ne, of x] br by simp
    with i interpolate_between [OF i(4) i(5)] show ?thesis by blast
  qed
  have first: "getYForX gs (pt_x (hd ?xs)) = Some (pt_y (hd ?xs))"
  proof (cases "2 \<le> length ?xs")
    case True
    from findBracket_first [OF True srt] show ?thesis
      using getYForX_eq [OF ne, of "pt_x (hd ?xs)"] by (simp add: interpolate_def)
  next
    case False
    with ne obtain p where p: "?xs = [p]"
      by (cases ?xs; cases "tl ?xs") auto
    show ?thesis
      using getYForX_eq [OF ne, of "pt_x (hd ?xs)"] by (simp add: p interpolate_def)
  qed
  have lastp: "\<exists>p. p \<in> set ?xs \<and> pt_x p = pt_x (last ?xs)
                 \<and> getYForX gs (pt_x (last ?xs)) = Some (pt_y p)"
  proof (cases "2 \<le> length ?xs")
    case False
    with ne obtain p where p: "?xs = [p]"
      by (cases ?xs; cases "tl ?xs") auto
    show ?thesis
      using getYForX_eq [OF ne, of "pt_x (last ?xs)"] by (simp add: p interpolate_def)
  next
    case True
    have "pt_x (hd ?xs) \<le> pt_x (last ?xs)"
      by (rule sorted_hd_le_last [OF srt ne])
    from findBracket_inside [OF srt True this order_refl]
    obtain a b where br: "findBracket ?xs (pt_x (last ?xs)) = Some (a, b)" by blast
    from findBracket_members [OF br]
    have m: "a \<in> set ?xs" "b \<in> set ?xs" "pt_x a \<le> pt_x (last ?xs)" "pt_x (last ?xs) \<le> pt_x b"
      by simp_all
    have g: "getYForX gs (pt_x (last ?xs)) = Some (interpolate a b (pt_x (last ?xs)))"
      using getYForX_eq [OF ne, of "pt_x (last ?xs)"] br by simp
    have bl: "pt_x b = pt_x (last ?xs)"
      using sorted_le_last [OF srt m(2)] m(4) by linarith
    show ?thesis
    proof (cases "pt_x b = pt_x a")
      case True
      then have "interpolate a b (pt_x (last ?xs)) = pt_y a" by (simp add: interpolate_def)
      with g m(1) True bl show ?thesis by auto
    next
      case False
      then have "interpolate a b (pt_x (last ?xs)) = pt_y b"
        by (simp add: interpolate_def bl [symmetric])
      with g m(2) bl show ?thesis by auto
    qed
  qed
  have lastd: "getYForX gs (pt_x (last ?xs)) = Some (pt_y (last ?xs))"
    if d: "distinct (map pt_x ?xs)"
  proof -
    from lastp obtain p where p: "p \<in> set ?xs" "pt_x p = pt_x (last ?xs)"
      "getYForX gs (pt_x (last ?xs)) = Some (pt_y p)" by blast
    have "inj_on pt_x (set ?xs)" using d by (simp add: distinct_map)
    with p(1,2) ne have "p = last ?xs" by (auto dest: inj_onD)
    with p(3) show ?thesis by simp
  qed
  have outside: "getYForX gs x = Some (interpolate (hd ?xs) (last ?xs) x)"
    if "x < pt_x (hd ?xs) \<or> pt_x (last ?xs) < x"
    using getYForX_eq [OF ne, of x] findBracket_outside [OF srt ne that] by simp
  from inside first lastp lastd outside show ?thesis by blast
qed


theorem getYForX_inside_and_outside_witness:
  "pathSamples sampleCurve \<noteq> [] \<and> sorted (map pt_x (pathSamples sampleCurve))
   \<and> distinct (map pt_x (pathSamples sampleCurve))
   \<and> getYForX sampleCurve (pt_x (hd (pathSamples sampleCurve)))
        = Some (pt_y (hd (pathSamples sampleCurve)))
   \<and> getYForX sampleCurve (pt_x (last (pathSamples sampleCurve)))
        = Some (pt_y (last (pathSamples sampleCurve)))"
proof -
  have ne: "pathSamples sampleCurve \<noteq> []" by (simp add: sampleCurve_def)
  have srt: "sorted (map pt_x (pathSamples sampleCurve))" by (simp add: sampleCurve_def)
  have d: "distinct (map pt_x (pathSamples sampleCurve))" by (simp add: sampleCurve_def)
  from getYForX_inside_and_outside [OF ne srt, of 0] ne srt d show ?thesis by blast
qed

text \<open>
  Claim C7 as stated fails beyond the last sample: on the rising curve, sampled up to
  \<open>x = 200\<close> with \<open>y = 150\<close> there, the query \<open>x = 206\<close> gives \<open>151.5\<close>.
\<close>

theorem getYForX_extrapolates:
  "getYForX sampleCurve 206 = Some (303 / 2) \<and> pt_y (last (pathSamples sampleCurve)) = 150"
  by (simp add: getYForX_def sampleCurve_def)

lemma getYForX_Some: "pathSamples gs \<noteq> [] \<Longrightarrow> \<exists>y. getYForX gs x = Some y"
  by (simp add: getYForX_eq)

lemma segmentsFrom_Some:
  "pathSamples gs \<noteq> [] \<Longrightarrow> \<exists>segs. segmentsFrom gs lastX cs = Some segs"
proof (induction cs arbitrary: lastX)
  case Nil
  from getYForX_Some [OF Nil, of "(lastX + maxX gs) / 2"] show ?case by auto
next
  case (Cons c cs)
  from getYForX_Some [OF Cons.prems, of "(lastX + cross_x c) / 2"]
  obtain y where "getYForX gs ((lastX + cross_x c) / 2) = Some y" by blast
  moreover from Cons.IH [OF Cons.prems, of "cross_x c"]
  obtain segs where "segmentsFrom gs (cross_x c) cs = Some segs" by blast
  ultimately show ?case by simp
qed

lemma segmentsFrom_chain:
  "segmentsFrom gs lastX cs = Some segs \<Longrightarrow>
     segs \<noteq> [] \<and> startX (hd segs) = lastX \<and> endX (last segs) = maxX gs
     \<and> successively (\<lambda>a b. startX b = endX a) segs"
proof (induction cs arbitrary: lastX segs)
  case Nil
  then show ?case by (auto split: option.splits)
next
  case (Cons c cs)
  from Cons.prems obtain y others where
    o: "segmentsFrom gs (cross_x c) cs = Some others"
    and s: "segs = \<lparr>startX = lastX, endX = cross_x c, zone = getZoneNameForY y\<rparr> # others"
    by (auto split: option.splits)
  from Cons.IH [OF o] have ih: "others \<noteq> []" "startX (hd others) = cross_x c"
    "endX (last others) = maxX gs" "successively (\<lambda>a b. startX b = endX a) others"
    by simp_all
  from ih(1) obtain h t where ht: "others = h # t" by (cases others) auto
  with ih s show ?case by (simp add: successively_Cons)
qed

lemma segmentsFrom_zone:
  "segmentsFrom gs lastX cs = Some segs \<Longrightarrow> seg \<in> set segs \<Longrightarrow>
     \<exists>y. getYForX gs ((startX seg + endX seg) / 2) = Some y \<and> zone seg = getZoneNameForY y"
proof (induction cs arbitrary: lastX segs)
  case Nil
  then show ?case by (auto split: option.splits)
next
  case (Cons c cs)
  from Cons.prems(1) obtain y others where
    y: "getYForX gs ((lastX + cross_x c) / 2) = Some y"
    and o: "segmentsFrom gs (cross_x c) cs = Some others"
    and s: "segs = \<lparr>startX = lastX, endX = cross_x c, zone = getZoneNameForY y\<rparr> # others"
    by (auto split: option.splits)
  show ?case
  proof (cases "seg \<in> set others")
    case True
    from Cons.IH [OF o True] show ?thesis .
  next
    case False
    with Cons.prems(2) s have "seg = \<lparr>startX = lastX, endX = cross_x c, zone = getZoneNameForY y\<rparr>"
      by simp
    with y show ?thesis by simp
  qed
qed

lemma segmentsFrom_ordered:
  "segmentsFrom gs lastX cs = Some segs \<Longrightarrow> sorted (map cross_x cs) \<Longrightarrow>
     \<forall>c\<in>set cs. lastX \<le> cross_x c \<and> cross_x c \<le> maxX gs \<Longrightarrow> lastX \<le> maxX gs \<Longrightarrow>
     seg \<in> set segs \<Longrightarrow> startX seg \<le> endX seg"
proof (induction cs arbitrary: lastX segs)
  case Nil
  then show ?case by (auto split: option.splits)
next
  case (Cons c cs)
  from Cons.prems(1) obtain y others where
    o: "segmentsFrom gs (cross_x c) cs = Some others"
    and s: "segs = \<lparr>startX = lastX, endX = cross_x c, zone = getZoneNameForY y\<rparr> # others"
    by (auto split: option.splits)
  show ?case
  proof (cases "seg \<in> set others")
    case True
    have "sorted (map cross_x cs)" using Cons.prems(2) by simp
    moreover have "\<forall>d\<in>set cs. cross_x c \<le> cross_x d \<and> cross_x d \<le> maxX gs"
      using Cons.prems(2,3) by simp
    moreover have "cross_x c \<le> maxX gs" using Cons.prems(3) by simp
    ultimately show ?thesis using Cons.IH [OF o _ _ _ True] by blast
  next
    case False
    with Cons.prems(5) s have "seg = \<lparr>startX = lastX, endX = cross_x c, zone = getZoneNameForY y\<rparr>"
      by simp
    with Cons.prems(3) show ?thesis by simp
  qed
qed

lemma crossingsBetween_range:
  assumes "c \<in> set (crossingsBetween prev cur)" "pt_x prev \<le> pt_x cur"
  shows "pt_x prev \<le> cross_x c \<and> cross_x c \<le> pt_x cur"
proof -
  from assms(1) obtain b name where
    cc: "c = Crossing (pt_x prev + (b - pt_y prev) / (pt_y cur - pt_y prev) * (pt_x cur - pt_x prev)) b name"
    and b: "(pt_y prev < b \<and> pt_y cur \<ge> b) \<or> (pt_y prev \<ge> b \<and> pt_y cur < b)"
    unfolding crossingsBetween_def by (auto simp: Let_def split: if_splits)
  have c: "cross_x c = pt_x prev + (b - pt_y prev) / (pt_y cur - pt_y prev) * (pt_x cur - pt_x prev)"
    unfolding cc by simp
  define t where "t = (b - pt_y prev) / (pt_y cur - pt_y prev)"
  have t: "0 \<le> t \<and> t \<le> 1"
    using b by (auto simp: t_def field_simps)
  have w: "0 \<le> pt_x cur - pt_x prev" using assms(2) by simp
  have "0 \<le> t * (pt_x cur - pt_x prev)" using t w by simp
  moreover have "t * (pt_x cur - pt_x prev) \<le> 1 * (pt_x cur - pt_x prev)"
    using t w by (intro mult_right_mono) simp_all
  ultimately show ?thesis unfolding c t_def [symmetric] by simp
qed

lemma scanCrossings_range:
  "sorted (map pt_x xs) \<Longrightarrow> \<forall>p\<in>set xs. lo \<le> pt_x p \<and> pt_x p \<le> hi \<Longrightarrow>
     c \<in> set (scanCrossings xs) \<Longrightarrow> lo \<le> cross_x c \<and> cross_x c \<le> hi"
proof (induction xs rule: scanCrossings.induct)
  case (1 prev cur rest)
  from "1.prems"(3) consider "c \<in> set (crossingsBetween prev cur)" | "c \<in> set (scanCrossings (cur # rest))"
    by auto
  then show ?case
  proof cases
    case 1
    have "pt_x prev \<le> pt_x cur" using "1.prems"(1) by simp
    from crossingsBetween_range [OF 1 this] "1.prems"(2) show ?thesis by force
  next
    case 2
    with "1.IH" "1.prems"(1,2) show ?thesis by simp
  qed
qed simp_all


lemma getYForX_frame:
  "getYForX (gs\<lparr>boundaryCrossings := cs\<rparr>) x = getYForX gs x"
  "getYForX (gs\<lparr>segments := segs\<rparr>) x = getYForX gs x"
  by (simp_all add: getYForX_def)

text \<open>
  Claim C3. For every sampled curve (at least one sample), \<open>findBoundaryCrossings\<close> with
  \<open>buildSegments\<close> returns segments such that the first starts at \<open>minX\<close>, the last ends at
  \<open>maxX\<close>, every segment starts where the one before it ends, and every segment's zone is
  the zone name of the curve's \<open>y\<close> over the segment's midpoint. When the samples are sorted
  by \<open>x\<close> and lie between \<open>minX\<close> and \<open>maxX\<close>, every segment also runs from left to right.
\<close>

theorem segments_contiguous:
  assumes ne: "pathSamples gs \<noteq> []"
  shows "\<exists>gs'. findBoundaryCrossings gs = Some gs'
      \<and> segments gs' \<noteq> []
      \<and> startX (hd (segments gs')) = minX gs
      \<and> endX (last (segments gs')) = maxX gs
      \<and> (\<forall>i. Suc i < length (segments gs') \<longrightarrow>
            startX (segments gs' ! Suc i) = endX (segments gs' ! i))
      \<and> (\<forall>seg\<in>set (segments gs').
            \<exists>y. getYForX gs' ((startX seg + endX seg) / 2) = Some y
               \<and> zone seg = getZoneNameForY y)
      \<and> (sorted (map pt_x (pathSamples gs))
           \<and> (\<forall>p\<in>set (pathSamples gs). minX gs \<le> pt_x p \<and> pt_x p \<le> maxX gs)
          \<longrightarrow> (\<forall>seg\<in>set (segments gs'). startX seg \<le> endX seg))"
proof -
  define cs where "cs = sort_key cross_x (scanCrossings (pathSamples gs))"
  define g2 where "g2 = gs\<lparr>boundaryCrossings := cs\<rparr>"
  have ne2: "pathSamples g2 \<noteq> []" using ne by (simp add: g2_def)
  from segmentsFrom_Some [OF ne2, of "minX g2" cs]
  obtain segs where sf: "segmentsFrom g2 (minX g2) cs = Some segs" by blast
  define g3 where "g3 = g2\<lparr>segments := segs\<rparr>"
  have fb: "findBoundaryCrossings gs = Some g3"
    using sf by (simp add: findBoundaryCrossings_def buildSegments_def cs_def g2_def g3_def)
  have sg: "segments g3 = segs" by (simp add: g3_def)
  have mm: "minX g2 = minX gs" "maxX g2 = maxX gs" by (simp_all add: g2_def)
  from segmentsFrom_chain [OF sf]
  have ch: "segs \<noteq> []" "startX (hd segs) = minX gs" "endX (last segs) = maxX gs"
    "successively (\<lambda>a b. startX b = endX a) segs"
    by (simp_all add: mm)
  have adj: "\<forall>i. Suc i < length segs \<longrightarrow> startX (segs ! Suc i) = endX (segs ! i)"
    using successively_nth [OF ch(4)] by blast
  have zn: "\<forall>seg\<in>set segs. \<exists>y. getYForX g3 ((startX seg + endX seg) / 2) = Some y
               \<and> zone seg = getZoneNameForY y"
    using segmentsFrom_zone [OF sf] by (simp add: g3_def getYForX_frame)
  have ord: "\<forall>seg\<in>set segs. startX seg \<le> endX seg"
    if srt: "sorted (map pt_x (pathSamples gs))"
      and rng: "\<forall>p\<in>set (pathSamples gs). minX gs \<le> pt_x p \<and> pt_x p \<le> maxX gs"
  proof
    fix seg assume seg: "seg \<in> set segs"
    have s1: "sorted (map cross_x cs)" by (simp add: cs_def)
    have s2: "\<forall>c\<in>set cs. minX g2 \<le> cross_x c \<and> cross_x c \<le> maxX g2"
      using scanCrossings_range [OF srt rng] by (simp add: cs_def mm)
    from ne obtain p where "p \<in> set (pathSamples gs)" by (cases "pathSamples gs") auto
    with rng have s3: "minX g2 \<le> maxX g2" by (force simp: mm)
    from segmentsFrom_ordered [OF sf s1 s2 s3 seg] show "startX seg \<le> endX seg" .
  qed
  from fb sg ch adj zn ord show ?thesis by auto
qed

theorem segments_contiguous_witness:
  "pathSamples oscillatingCurve \<noteq> []
   \<and> sorted (map pt_x (pathSamples oscillatingCurve))
   \<and> (\<exists>gs'. findBoundaryCrossings oscillatingCurve = Some gs'
          \<and> segments gs' \<noteq> []
          \<and> startX (hd (segments gs')) = minX oscillatingCurve
          \<and> endX (last (segments gs')) = maxX oscillatingCurve
          \<and> (\<forall>seg\<in>set (segments gs'). startX seg \<le> endX seg))"
proof -
  have ne: "pathSamples oscillatingCurve \<noteq> []" by (simp add: oscillatingCurve_def)
  have srt: "sorted (map pt_x (pathSamples oscillatingCurve))" by (simp add: oscillatingCurve_def)
  have rng: "\<forall>p\<in>set (pathSamples oscillatingCurve).
               minX oscillatingCurve \<le> pt_x p \<and> pt_x p \<le> maxX oscillatingCurve"
    by (simp add: oscillatingCurve_def)
  from segments_contiguous [OF ne] srt rng ne show ?thesis by blast
qed

end
